theory Spec2Isabelle
  imports Complex_Main "HOL-Library.Multiset" "HOL-Library.Char_ord" "HOL-Library.List_Lexorder"
begin

unbundle bit_operations_syntax

section \<open>Numeric conventions\<close>

text \<open>
  The program computes with Python floats and numpy float arrays.  The embedding reads
  every float as a real number (no rounding, no infinities); a numpy array is a list.
  The one place where numpy yields \<open>nan\<close> on a path the claims touch, the mean of an
  empty array, is an explicit error value of the model.
\<close>

datatype py_error = ValueError | KeyError | IndexError | NotANumber

definition np_clip :: "real \<Rightarrow> real \<Rightarrow> real \<Rightarrow> real" where
  "np_clip x lo hi = min (max x lo) hi"

definition np_mean :: "real list \<Rightarrow> real" where
  "np_mean xs = sum_list xs / real (length xs)"

section \<open>Break-even spend\<close>

record break_even =
  break_even_yearly_spend :: real
  break_even_monthly_spend :: real

definition calculate_membership_break_even :: "real \<Rightarrow> real \<Rightarrow> real \<Rightarrow> break_even" where
  "calculate_membership_break_even membership_fee bulk_discount inflation_rate =
     (let break_even_yearly =
            membership_fee * (1 + inflation_rate) / max bulk_discount (1 / 1000)
      in \<lparr>break_even_yearly_spend = break_even_yearly,
          break_even_monthly_spend = break_even_yearly / 12\<rparr>)"

section \<open>Configuration\<close>

record operational_assumptions =
  employees_per_warehouse :: real
  hours_per_employee_per_year :: real
  merchandise_gross_margin_percent :: real
  annual_fixed_opex_eur :: real

record competition_assumptions =
  competitor_response_base_percent :: real
  downside_response_uplift_percent :: real
  top4_market_concentration_percent :: real
  response_volatility_percent :: real

record demand_assumptions =
  addressable_households :: real
  membership_fee_sensitivity :: real
  yearly_spend_distribution_mean_eur :: real
  yearly_spend_distribution_sigma :: real
  bulk_discount_distribution_min :: real
  bulk_discount_distribution_mode :: real
  bulk_discount_distribution_max :: real

text \<open>
  \<open>labor_legal\<close> holds one key \<open>min_wage_<year>_eur_per_hour\<close> per year; the model
  keeps them as a map from the year, a missing key being a \<open>KeyError\<close>.
\<close>

record labor_legal =
  standard_german_ad_information_cues_min :: int
  min_wage_eur_per_hour :: "int \<rightharpoonup> real"

record cultural =
  indulgence :: real
  uncertainty_avoidance :: real
  long_term_orientation :: real

record macro =
  macro_consumer_climate_index :: real
  macro_savings_rate_percent :: real

record simulation =
  n_households_monte_carlo :: nat
  n_replications :: nat
  random_seed :: int

record scenario_cfg =
  consumer_climate_index :: real
  savings_rate_percent :: real
  inflation_percent :: real
  discount_shift :: real

record strategy_cfg =
  membership_fee_eur :: real
  first_year_subsidy_eur :: real
  incremental_marketing_info_cues :: int

text \<open>
  The two dictionaries the engine iterates over, \<open>macro_scenarios\<close> and
  \<open>strategy_options\<close>, are association lists in insertion order.
\<close>

record config =
  operational :: operational_assumptions
  competition :: competition_assumptions
  demand :: demand_assumptions
  labor :: labor_legal
  culture :: cultural
  macro_cfg :: macro
  simulation_cfg :: simulation
  macro_scenarios :: "(string \<times> scenario_cfg) list"
  strategy_options :: "(string \<times> strategy_cfg) list"

section \<open>Consumer model\<close>

definition INFO_CUE_THRESHOLD :: int where
  "INFO_CUE_THRESHOLD = 7"

text \<open>Python's \<open>round(x, 3)\<close>: to the nearest thousandth, a tie going to the even one.\<close>

definition py_round3 :: "real \<Rightarrow> real" where
  "py_round3 x =
     (let y = x * 1000; f = \<lfloor>y\<rfloor>; r = y - of_int f
      in of_int (if r < 1 / 2 then f else if 1 / 2 < r then f + 1
                 else if even f then f else f + 1) / 1000)"

definition calculate_impulse_resistance :: "config \<Rightarrow> real option \<Rightarrow> real option \<Rightarrow> real" where
  "calculate_impulse_resistance cfg consumer_climate_override savings_rate_override =
     (let consumer_climate =
            (case consumer_climate_override of
               None \<Rightarrow> macro_consumer_climate_index (macro_cfg cfg) | Some v \<Rightarrow> v);
          savings_rate =
            (case savings_rate_override of
               None \<Rightarrow> macro_savings_rate_percent (macro_cfg cfg) | Some v \<Rightarrow> v);
          indulgence_penalty = (100 - indulgence (culture cfg)) / 100;
          risk_penalty = uncertainty_avoidance (culture cfg) / 100;
          future_orientation_penalty = long_term_orientation (culture cfg) / 100;
          base_resistance =
            7 / 10 + 7 / 10 * indulgence_penalty + 3 / 10 * risk_penalty
            + 1 / 4 * future_orientation_penalty;
          base_resistance' =
            (if consumer_climate < - 20 \<and> 15 < savings_rate
             then base_resistance * (3 / 2) else base_resistance)
      in py_round3 base_resistance')"

section \<open>Strategy evaluation\<close>

definition calculate_labor_cost_per_warehouse :: "config \<Rightarrow> int \<Rightarrow> py_error + real" where
  "calculate_labor_cost_per_warehouse cfg year =
     (case min_wage_eur_per_hour (labor cfg) year of
        None \<Rightarrow> Inl KeyError
      | Some hourly_wage \<Rightarrow>
          Inr (hourly_wage * employees_per_warehouse (operational cfg)
               * hours_per_employee_per_year (operational cfg)))"

definition effective_fee_of :: "strategy_cfg \<Rightarrow> real" where
  "effective_fee_of strategy = max 0 (membership_fee_eur strategy - first_year_subsidy_eur strategy)"

definition info_cues_of :: "config \<Rightarrow> strategy_cfg \<Rightarrow> int" where
  "info_cues_of cfg strategy =
     standard_german_ad_information_cues_min (labor cfg) - 2
     + incremental_marketing_info_cues strategy"

definition competitor_penalty_of ::
  "config \<Rightarrow> strategy_cfg \<Rightarrow> string \<Rightarrow> real \<Rightarrow> real" where
  "competitor_penalty_of cfg strategy scenario_name competitor_shock =
     (let comp = competition cfg;
          scenario_competition_uplift =
            (if scenario_name = ''downside_stress''
             then downside_response_uplift_percent comp / 100
             else if scenario_name = ''upside_recovery''
             then - (35 / 100) * (downside_response_uplift_percent comp / 100)
             else 0);
          fee_exposure = max 0 ((effective_fee_of strategy - 35) / 100) * (2 / 100);
          concentration_drag = (top4_market_concentration_percent comp / 100) * (2 / 1000);
          info_mitigation =
            max 0 (real_of_int (info_cues_of cfg strategy - INFO_CUE_THRESHOLD)) * (15 / 10000)
      in np_clip (competitor_response_base_percent comp / 100 + scenario_competition_uplift
                  + fee_exposure + concentration_drag - info_mitigation + competitor_shock)
           0 (8 / 100))"

text \<open>
  The latent score of one household, from its spend, discount and noise draw
  (the element of the array expression for \<open>latent\<close>).
\<close>

definition latent_score ::
  "config \<Rightarrow> strategy_cfg \<Rightarrow> string \<Rightarrow> scenario_cfg \<Rightarrow> real \<Rightarrow> real \<Rightarrow> real \<Rightarrow> real \<Rightarrow> real" where
  "latent_score cfg strategy scenario_name scenario competitor_shock spend discount z =
     (let effective_fee = effective_fee_of strategy;
          resistance = calculate_impulse_resistance cfg
                         (Some (consumer_climate_index scenario))
                         (Some (savings_rate_percent scenario));
          competitor_penalty = competitor_penalty_of cfg strategy scenario_name competitor_shock;
          net_benefit = spend * discount - effective_fee;
          info_density_boost =
            real_of_int (info_cues_of cfg strategy - INFO_CUE_THRESHOLD) * (18 / 100);
          fee_term = - (effective_fee * membership_fee_sensitivity (demand cfg));
          resistance_term = - (85 / 100) * resistance;
          competitor_term = - (competitor_penalty * 8)
      in net_benefit / 220 + info_density_boost + fee_term + resistance_term
         + competitor_term + z)"

definition adoption_prob :: "real \<Rightarrow> real" where
  "adoption_prob latent = 1 / (1 + exp (- np_clip latent (- 30) 30))"

text \<open>The arrays \<open>latent\<close>, \<open>probs\<close> and \<open>adopted\<close>, one entry per household.\<close>

definition latent_arr ::
  "config \<Rightarrow> strategy_cfg \<Rightarrow> string \<Rightarrow> scenario_cfg \<Rightarrow> real \<Rightarrow>
   real list \<Rightarrow> real list \<Rightarrow> real list \<Rightarrow> real list" where
  "latent_arr cfg strategy scenario_name scenario competitor_shock spends discounts noise =
     map (\<lambda>(spend, discount, z).
            latent_score cfg strategy scenario_name scenario competitor_shock spend discount z)
         (zip spends (zip discounts noise))"

definition probs_arr ::
  "config \<Rightarrow> strategy_cfg \<Rightarrow> string \<Rightarrow> scenario_cfg \<Rightarrow> real \<Rightarrow>
   real list \<Rightarrow> real list \<Rightarrow> real list \<Rightarrow> real list" where
  "probs_arr cfg strategy scenario_name scenario competitor_shock spends discounts noise =
     map adoption_prob
       (latent_arr cfg strategy scenario_name scenario competitor_shock spends discounts noise)"

definition adopted_arr ::
  "config \<Rightarrow> strategy_cfg \<Rightarrow> string \<Rightarrow> scenario_cfg \<Rightarrow> real \<Rightarrow>
   real list \<Rightarrow> real list \<Rightarrow> real list \<Rightarrow> bool list" where
  "adopted_arr cfg strategy scenario_name scenario competitor_shock spends discounts noise =
     map (\<lambda>p. 1 / 2 < p)
       (probs_arr cfg strategy scenario_name scenario competitor_shock spends discounts noise)"

text \<open>Boolean-mask indexing \<open>xs[mask]\<close>.\<close>

definition mask_select :: "'a list \<Rightarrow> bool list \<Rightarrow> 'a list" where
  "mask_select xs flags = map fst (filter snd (zip xs flags))"

record replication_row =
  row_scenario :: string
  row_strategy :: string
  row_membership_fee_eur :: real
  row_first_year_subsidy_eur :: real
  effective_fee_eur :: real
  info_cues_used :: int
  row_consumer_climate_index :: real
  row_savings_rate_percent :: real
  row_inflation_percent :: real
  competitor_penalty_percent :: real
  adoption_rate :: real
  projected_member_households :: real
  projected_member_spend_eur :: real
  membership_revenue_eur :: real
  merchandise_contribution_eur :: real
  total_contribution_eur :: real
  break_even_monthly_spend_eur :: real
  replication_id :: nat

text \<open>
  \<open>evaluate_strategy\<close>.  The three draw arrays come from \<open>generate_draws\<close> with one
  common size; on lists of different lengths the element-wise product of the
  source does not go through (\<open>ValueError\<close>), and on empty arrays the adoption rate is the
  mean of an empty array (\<open>NotANumber\<close>).  The row's \<open>replication_id\<close> is set by the
  caller; it is a parameter here.
\<close>

definition evaluate_strategy ::
  "config \<Rightarrow> string \<Rightarrow> strategy_cfg \<Rightarrow> string \<Rightarrow> scenario_cfg \<Rightarrow>
   real list \<Rightarrow> real list \<Rightarrow> real list \<Rightarrow> real \<Rightarrow> nat \<Rightarrow>
   py_error + (replication_row \<times> real list)" where
  "evaluate_strategy cfg strategy_name strategy scenario_name scenario
       spends discounts noise competitor_shock rep =
     (if \<not> (length spends = length discounts \<and> length discounts = length noise)
      then Inl ValueError
      else if spends = [] then Inl NotANumber
      else
       (let effective_fee = effective_fee_of strategy;
            competitor_penalty =
              competitor_penalty_of cfg strategy scenario_name competitor_shock;
            probs = probs_arr cfg strategy scenario_name scenario competitor_shock
                      spends discounts noise;
            adopted = adopted_arr cfg strategy scenario_name scenario competitor_shock
                        spends discounts noise;
            adoption = real (length (filter id adopted)) / real (length adopted);
            households = adoption * addressable_households (demand cfg);
            adopted_spend_mean =
              (if True \<in> set adopted then np_mean (mask_select spends adopted) else 0);
            adopted_discount_mean =
              (if True \<in> set adopted then np_mean (mask_select discounts adopted)
               else np_mean discounts);
            member_spend = households * adopted_spend_mean * (1 - competitor_penalty);
            membership_revenue = households * effective_fee;
            gross_profit_before_discount =
              member_spend * (merchandise_gross_margin_percent (operational cfg) / 100);
            discount_cost = member_spend * adopted_discount_mean;
            merchandise_contribution = gross_profit_before_discount - discount_cost
        in case calculate_labor_cost_per_warehouse cfg 2026 of
             Inl e \<Rightarrow> Inl e
           | Inr labor_cost \<Rightarrow>
              (let fixed_opex = annual_fixed_opex_eur (operational cfg);
                   total_contribution =
                     membership_revenue + merchandise_contribution - labor_cost - fixed_opex;
                   inflation = inflation_percent scenario / 100;
                   be = calculate_membership_break_even effective_fee (np_mean discounts) inflation
               in Inr (\<lparr>row_scenario = scenario_name,
                         row_strategy = strategy_name,
                         row_membership_fee_eur = membership_fee_eur strategy,
                         row_first_year_subsidy_eur = first_year_subsidy_eur strategy,
                         effective_fee_eur = effective_fee,
                         info_cues_used = info_cues_of cfg strategy,
                         row_consumer_climate_index = consumer_climate_index scenario,
                         row_savings_rate_percent = savings_rate_percent scenario,
                         row_inflation_percent = inflation_percent scenario,
                         competitor_penalty_percent = competitor_penalty * 100,
                         adoption_rate = adoption,
                         projected_member_households = households,
                         projected_member_spend_eur = member_spend,
                         membership_revenue_eur = membership_revenue,
                         merchandise_contribution_eur = merchandise_contribution,
                         total_contribution_eur = total_contribution,
                         break_even_monthly_spend_eur = break_even_monthly_spend be,
                         replication_id = rep\<rparr>, probs))))"

section \<open>Rollout optimizer\<close>

text \<open>
  The optimizer is the second half of \<open>build_city_portfolio\<close>.  It starts from the
  recommendation table, one row per city with its board signal and capex estimate,
  and annotates every row with a rollout year.  The model takes that table as its input.
\<close>

datatype board = GO | CONDITIONAL | NO_GO

record city_reco =
  city :: string
  state :: string
  portfolio_objective_eur :: real
  risk_adjusted_city_score :: real
  city_prob_loss :: real
  board_signal :: board
  capex_estimate_eur :: real

text \<open>The columns added for the plan; \<open>nan\<close> in a float column is \<open>None\<close>.\<close>

record city_plan = city_reco +
  rollout_year :: int
  launch_wave :: string
  year_capex_budget_eur :: "real option"
  year_capex_used_eur :: "real option"
  year_risk_cap :: "real option"
  year_loss_risk_avg :: "real option"
  selected_by_optimizer :: bool
  optimization_status :: string
  city_rank :: nat

record portfolio_params =
  annual_capex_budget_eur :: "real list"
  budget_reserve_ratio :: real
  max_new_cities_per_year :: "int list"
  annual_loss_risk_cap :: "real list"
  min_distinct_states_first3_years :: int

definition board_signal_of :: "real \<Rightarrow> real \<Rightarrow> board" where
  "board_signal_of objective prob_loss =
     (if 0 < objective \<and> prob_loss \<le> 35 / 100 then GO
      else if - 2000000 < objective \<and> prob_loss \<le> 55 / 100 then CONDITIONAL
      else NO_GO)"

definition planning_years :: "portfolio_params \<Rightarrow> nat" where
  "planning_years p =
     min (length (annual_capex_budget_eur p))
       (min (length (max_new_cities_per_year p)) (length (annual_loss_risk_cap p)))"

definition annual_budgets :: "portfolio_params \<Rightarrow> real list" where
  "annual_budgets p = take (planning_years p) (annual_capex_budget_eur p)"

definition max_new_per_year :: "portfolio_params \<Rightarrow> int list" where
  "max_new_per_year p = take (planning_years p) (max_new_cities_per_year p)"

definition risk_caps :: "portfolio_params \<Rightarrow> real list" where
  "risk_caps p = take (planning_years p) (annual_loss_risk_cap p)"

definition usable_budgets :: "portfolio_params \<Rightarrow> real list" where
  "usable_budgets p = map (\<lambda>b. b * max 0 (1 - budget_reserve_ratio p)) (annual_budgets p)"

definition init_plan :: "city_reco \<Rightarrow> city_plan" where
  "init_plan r =
     city_reco.extend r
       (city_plan.fields (- 1) ''Hold'' None None None None False ''UNASSIGNED'' 0)"

subsection \<open>Candidates and bit masks\<close>

fun popcount :: "nat \<Rightarrow> nat" where
  "popcount n = (if n = 0 then 0 else n mod 2 + popcount (n div 2))"

declare popcount.simps [simp del]

text \<open>\<open>bin(int(value)).count("1")\<close>: the ones in the binary digits of the magnitude.\<close>

definition count_bits :: "int \<Rightarrow> nat" where
  "count_bits v = popcount (nat \<bar>v\<bar>)"

definition state_to_bit :: "string list \<Rightarrow> string \<Rightarrow> nat" where
  "state_to_bit state_list s = length (takeWhile (\<lambda>t. t \<noteq> s) state_list)"

record candidates =
  capex_arr :: "real list"
  loss_arr :: "real list"
  objective_arr :: "real list"
  state_mask_arr :: "int list"
  df_index_arr :: "nat list"
  state_list :: "string list"

definition candidate_index :: "city_reco list \<Rightarrow> nat list" where
  "candidate_index recos = filter (\<lambda>i. board_signal (recos ! i) \<noteq> NO_GO) [0..<length recos]"

definition make_candidates :: "city_reco list \<Rightarrow> candidates" where
  "make_candidates recos =
     (let idx = candidate_index recos;
          cand = map (\<lambda>i. recos ! i) idx;
          states = sort (remdups (map state cand))
      in \<lparr>capex_arr = map capex_estimate_eur cand,
          loss_arr = map city_prob_loss cand,
          objective_arr = map portfolio_objective_eur cand,
          state_mask_arr = map (\<lambda>r. push_bit (state_to_bit states (state r)) 1) cand,
          df_index_arr = idx,
          state_list = states\<rparr>)"

definition n_candidates :: "candidates \<Rightarrow> nat" where
  "n_candidates c = length (df_index_arr c)"

definition first3_years :: "portfolio_params \<Rightarrow> nat" where
  "first3_years p = min 3 (planning_years p)"

definition required_states :: "portfolio_params \<Rightarrow> candidates \<Rightarrow> int" where
  "required_states p c = min (min_distinct_states_first3_years p) (int (length (state_list c)))"

subsection \<open>Yearly bundles\<close>

text \<open>\<open>itertools.combinations(xs, k)\<close>, in its lexicographic order.\<close>

fun combinations :: "'a list \<Rightarrow> nat \<Rightarrow> 'a list list" where
  "combinations xs 0 = [[]]"
| "combinations [] (Suc k) = []"
| "combinations (x # xs) (Suc k) = map ((#) x) (combinations xs k) @ combinations xs (Suc k)"

record rollout_bundle =
  ids :: "nat list"
  bundle_mask :: int
  state_mask :: int
  score :: real
  capex_sum :: real
  risk_avg :: real

definition empty_bundle :: rollout_bundle where
  "empty_bundle =
     \<lparr>ids = [], bundle_mask = 0, state_mask = 0, score = 0, capex_sum = 0, risk_avg = 0\<rparr>"

definition pick :: "'a list \<Rightarrow> nat list \<Rightarrow> 'a list" where
  "pick arr combo = map (\<lambda>i. arr ! i) combo"

definition make_bundle :: "candidates \<Rightarrow> nat list \<Rightarrow> rollout_bundle" where
  "make_bundle c combo =
     \<lparr>ids = combo,
      bundle_mask = fold (\<lambda>cid m. m OR push_bit cid 1) combo 0,
      state_mask = fold (\<lambda>cid m. m OR state_mask_arr c ! cid) combo 0,
      score = sum_list (pick (objective_arr c) combo),
      capex_sum = sum_list (pick (capex_arr c) combo),
      risk_avg = np_mean (pick (loss_arr c) combo)\<rparr>"

definition feasible_combo :: "candidates \<Rightarrow> real \<Rightarrow> real \<Rightarrow> nat list \<Rightarrow> bool" where
  "feasible_combo c budget risk_cap combo =
     (sum_list (pick (capex_arr c) combo) \<le> budget
      \<and> np_mean (pick (loss_arr c) combo) \<le> risk_cap)"

text \<open>
  The bundles of one year (years count from 1): the empty bundle, then the feasible
  combinations of each size, sorted by score, largest first; the sort is stable.
\<close>

definition yearly_bundles :: "portfolio_params \<Rightarrow> candidates \<Rightarrow> nat \<Rightarrow> rollout_bundle list" where
  "yearly_bundles p c year =
     (let max_new = max_new_per_year p ! (year - 1);
          budget = usable_budgets p ! (year - 1);
          risk_cap = risk_caps p ! (year - 1);
          bundles =
            empty_bundle #
            concat (map (\<lambda>k. map (make_bundle c)
                               (filter (feasible_combo c budget risk_cap)
                                  (combinations [0..<n_candidates c] (nat k))))
                      [1 .. min max_new (int (n_candidates c))])
      in sort_key (\<lambda>b. - score b) bundles)"

subsection \<open>Year-by-year selection\<close>

record opt_state =
  launched_mask :: int
  state_mask_first3 :: int
  schedule :: "nat list list"
  optimizer_total_score :: real
  optimization_feasible :: bool

definition init_state :: opt_state where
  "init_state =
     \<lparr>launched_mask = 0, state_mask_first3 = 0, schedule = [],
      optimizer_total_score = 0, optimization_feasible = True\<rparr>"

definition available_state_mask :: "candidates \<Rightarrow> int \<Rightarrow> int" where
  "available_state_mask c next_launched =
     fold (\<lambda>rid m. if next_launched AND push_bit rid 1 = 0
                    then m OR state_mask_arr c ! rid else m)
       [0..<n_candidates c] 0"

text \<open>
  The lookahead of a year inside the window: \<open>False\<close> where the source skips the
  bundle (\<open>continue\<close>).
\<close>

definition diversification_reachable ::
  "portfolio_params \<Rightarrow> candidates \<Rightarrow> nat \<Rightarrow> opt_state \<Rightarrow> rollout_bundle \<Rightarrow> bool" where
  "diversification_reachable p c year st b =
     (let next_launched = launched_mask st OR bundle_mask b;
          next_state_mask = state_mask_first3 st OR state_mask b;
          years_left = int (first3_years p) - int year;
          unseen_state_count =
            count_bits (available_state_mask c next_launched AND NOT next_state_mask);
          max_new_states_possible =
            int (count_bits next_state_mask)
            + min (int unseen_state_count)
                (if 0 < years_left
                 then sum_list (drop year (take (first3_years p) (max_new_per_year p)))
                 else 0)
      in if max_new_states_possible < required_states p c then False
         else if year = first3_years p
                 \<and> int (count_bits next_state_mask) < required_states p c then False
         else True)"

definition bonus_score ::
  "portfolio_params \<Rightarrow> nat \<Rightarrow> opt_state \<Rightarrow> rollout_bundle \<Rightarrow> real" where
  "bonus_score p year st b =
     (if year \<le> first3_years p
      then score b
           + real_of_int (int (count_bits (state_mask b AND NOT (state_mask_first3 st)))
                          * (400000 * (int (first3_years p) - int year + 1)))
      else score b)"

text \<open>
  One pass of the inner loop.  \<open>best\<close> is the pair of \<open>best_bundle\<close> and
  \<open>best_bundle_score\<close>; \<open>None\<close> is the start, no bundle and score \<open>-inf\<close>, below
  every score.
\<close>

definition consider_bundle ::
  "portfolio_params \<Rightarrow> candidates \<Rightarrow> nat \<Rightarrow> opt_state \<Rightarrow> rollout_bundle \<Rightarrow>
   (rollout_bundle \<times> real) option \<Rightarrow> (rollout_bundle \<times> real) option" where
  "consider_bundle p c year st b best =
     (if bundle_mask b AND launched_mask st \<noteq> 0 then best
      else if year \<le> first3_years p \<and> \<not> diversification_reachable p c year st b then best
      else (let bundle_score = bonus_score p year st b
            in case best of
                 None \<Rightarrow> Some (b, bundle_score)
               | Some (b', best_bundle_score) \<Rightarrow>
                   if best_bundle_score < bundle_score then Some (b, bundle_score) else best))"

definition best_bundle ::
  "portfolio_params \<Rightarrow> candidates \<Rightarrow> nat \<Rightarrow> opt_state \<Rightarrow> (rollout_bundle \<times> real) option" where
  "best_bundle p c year st = fold (consider_bundle p c year st) (yearly_bundles p c year) None"

definition commit_bundle ::
  "portfolio_params \<Rightarrow> nat \<Rightarrow> opt_state \<Rightarrow> rollout_bundle \<Rightarrow> opt_state" where
  "commit_bundle p year st b =
     st\<lparr>schedule := schedule st @ [ids b],
        optimizer_total_score := optimizer_total_score st + score b,
        launched_mask := launched_mask st OR bundle_mask b,
        state_mask_first3 :=
          (if year \<le> first3_years p then state_mask_first3 st OR state_mask b
           else state_mask_first3 st)\<rparr>"

text \<open>The loop over the years; a year without a bundle ends it (\<open>break\<close>).\<close>

fun run_years ::
  "portfolio_params \<Rightarrow> candidates \<Rightarrow> nat list \<Rightarrow> opt_state \<Rightarrow> opt_state" where
  "run_years p c [] st = st"
| "run_years p c (year # years) st =
     (case best_bundle p c year st of
        None \<Rightarrow> st\<lparr>optimization_feasible := False\<rparr>
      | Some (b, s) \<Rightarrow> run_years p c years (commit_bundle p year st b))"

definition optimize :: "portfolio_params \<Rightarrow> candidates \<Rightarrow> opt_state" where
  "optimize p c =
     (let st = run_years p c [1..<Suc (planning_years p)] init_state
      in if 1 \<le> first3_years p \<and> int (count_bits (state_mask_first3 st)) < required_states p c
         then st\<lparr>optimization_feasible := False\<rparr> else st)"

subsection \<open>Writing the plan\<close>

text \<open>The columns written to a selected city, for its year and its year's bundle.\<close>

definition assigned_row ::
  "portfolio_params \<Rightarrow> candidates \<Rightarrow> nat \<Rightarrow> nat list \<Rightarrow> city_plan \<Rightarrow> city_plan" where
  "assigned_row p c year combo r =
     r\<lparr>rollout_year := int year,
       year_capex_budget_eur := Some (annual_budgets p ! (year - 1)),
       year_capex_used_eur := Some (sum_list (pick (capex_arr c) combo)),
       year_risk_cap := Some (risk_caps p ! (year - 1)),
       year_loss_risk_avg := Some (np_mean (pick (loss_arr c) combo)),
       selected_by_optimizer := True,
       optimization_status := ''HARD_CONSTRAINED_SELECTION''\<rparr>"

definition assign_city ::
  "portfolio_params \<Rightarrow> candidates \<Rightarrow> nat \<Rightarrow> nat list \<Rightarrow> nat \<Rightarrow> city_plan list \<Rightarrow> city_plan list" where
  "assign_city p c year combo opt_id rows =
     (let df_idx = df_index_arr c ! opt_id
      in rows[df_idx := assigned_row p c year combo (rows ! df_idx)])"

definition write_back_year ::
  "portfolio_params \<Rightarrow> candidates \<Rightarrow> nat \<times> nat list \<Rightarrow> city_plan list \<Rightarrow> city_plan list" where
  "write_back_year p c = (\<lambda>(year, combo). fold (assign_city p c year combo) combo)"

definition write_back ::
  "portfolio_params \<Rightarrow> candidates \<Rightarrow> nat list list \<Rightarrow> city_plan list \<Rightarrow> city_plan list" where
  "write_back p c sched rows =
     fold (write_back_year p c) (zip [1..<Suc (planning_years p)] sched) rows"

definition wave_of :: "int \<Rightarrow> string" where
  "wave_of y =
     (if y = 1 then ''Wave 1 Pilot''
      else if y = 2 \<or> y = 3 then ''Wave 2 Scale''
      else if 0 < y then ''Wave 3 Option'' else ''Hold'')"

definition rollout_sort :: "int \<Rightarrow> int" where
  "rollout_sort y = (if y < 0 then 99 else y)"

text \<open>
  The closing steps: the wave labels, the stable sort on rollout year, then objective
  and score (both largest first), and the rank.
\<close>

definition finalize :: "city_plan list \<Rightarrow> city_plan list" where
  "finalize rows =
     (let labelled = map (\<lambda>r. r\<lparr>launch_wave := wave_of (rollout_year r)\<rparr>) rows;
          ordered =
            sort_key (\<lambda>r. rollout_sort (rollout_year r))
              (sort_key (\<lambda>r. - portfolio_objective_eur r)
                 (sort_key (\<lambda>r. - risk_adjusted_city_score r) labelled))
      in map (\<lambda>(k, r). r\<lparr>city_rank := k\<rparr>) (zip [1..<Suc (length ordered)] ordered))"

definition set_status :: "string \<Rightarrow> city_plan list \<Rightarrow> city_plan list" where
  "set_status s rows = map (\<lambda>r. r\<lparr>optimization_status := s\<rparr>) rows"

definition build_rollout_plan :: "portfolio_params \<Rightarrow> city_reco list \<Rightarrow> city_plan list" where
  "build_rollout_plan p recos =
     (let rows = map init_plan recos
      in if candidate_index recos = []
         then finalize (set_status ''NO_FEASIBLE_GO_OR_CONDITIONAL_CITIES'' rows)
         else (let c = make_candidates recos; st = optimize p c
               in if \<not> optimization_feasible st
                  then finalize (set_status ''INFEASIBLE_CONSTRAINT_SET'' rows)
                  else finalize (write_back p c (schedule st) rows)))"

subsection \<open>Invariant of the selection loop\<close>

text \<open>
  What holds of a combination once it is scheduled for a year: its ids are candidates,
  none twice, and unless it is empty it respects the year's launch limit, usable budget
  and risk cap.
\<close>

definition valid_combo :: "portfolio_params \<Rightarrow> candidates \<Rightarrow> nat \<Rightarrow> nat list \<Rightarrow> bool" where
  "valid_combo p c year combo =
     (set combo \<subseteq> {0..<n_candidates c} \<and> distinct combo
      \<and> (combo = [] \<or>
          (int (length combo) \<le> max_new_per_year p ! (year - 1)
           \<and> feasible_combo c (usable_budgets p ! (year - 1)) (risk_caps p ! (year - 1)) combo)))"

text \<open>
  The loop invariant: the schedule has one valid combination per completed year, the
  combinations are pairwise disjoint, the launched mask has exactly the bits of the
  scheduled ids and the state mask exactly the state bits of the ids scheduled inside
  the window.
\<close>

definition sched_inv :: "portfolio_params \<Rightarrow> candidates \<Rightarrow> opt_state \<Rightarrow> bool" where
  "sched_inv p c st =
     (length (schedule st) \<le> planning_years p
      \<and> distinct (concat (schedule st))
      \<and> (\<forall>i. bit (launched_mask st) i = (i \<in> set (concat (schedule st))))
      \<and> (\<forall>i. bit (state_mask_first3 st) i =
               (\<exists>cid \<in> set (concat (take (first3_years p) (schedule st))).
                  bit (state_mask_arr c ! cid) i))
      \<and> (\<forall>j < length (schedule st). valid_combo p c (Suc j) (schedule st ! j)))"

section \<open>Scenario summary\<close>






record summary_row =
  s_scenario :: string
  s_strategy :: string
  mean_contribution_eur :: real
  std_contribution_eur :: "real option"
  p10_contribution_eur :: real
  p50_contribution_eur :: real
  p90_contribution_eur :: real
  cvar5_contribution_eur :: real
  prob_loss :: real
  prob_meet_hurdle :: real
  mean_adoption_rate :: real
  adoption_ci_low :: real
  adoption_ci_high :: real
  mean_competitor_penalty_pct :: real
  mean_break_even_monthly_eur :: real




section \<open>Example configurations\<close>

text \<open>Small concrete inputs, used to run the optimizer on.\<close>

definition example_city :: "string \<Rightarrow> string \<Rightarrow> real \<Rightarrow> real \<Rightarrow> board \<Rightarrow> real \<Rightarrow> city_reco" where
  "example_city name st objective loss signal capex =
     \<lparr>city = name, state = st, portfolio_objective_eur = objective,
      risk_adjusted_city_score = objective, city_prob_loss = loss,
      board_signal = signal, capex_estimate_eur = capex\<rparr>"

text \<open>
  Three years, one launch a year, three distinct states asked for; the GO cities lie in
  two states only.
\<close>

definition params_two_states :: portfolio_params where
  "params_two_states =
     \<lparr>annual_capex_budget_eur = [100, 100, 100], budget_reserve_ratio = 1 / 10,
      max_new_cities_per_year = [1, 1, 1], annual_loss_risk_cap = [1 / 2, 1 / 2, 1 / 2],
      min_distinct_states_first3_years = 3\<rparr>"

definition cities_two_states :: "city_reco list" where
  "cities_two_states =
     [example_city ''Muenchen'' ''Bayern'' 10 (1 / 10) GO 50,
      example_city ''Berlin'' ''Berlin'' 5 (1 / 10) GO 50,
      example_city ''Nuernberg'' ''Bayern'' 3 (1 / 10) NO_GO 50]"

text \<open>A reserve ratio above one and a city whose capex estimate is zero.\<close>

definition params_over_reserve :: portfolio_params where
  "params_over_reserve =
     \<lparr>annual_capex_budget_eur = [100], budget_reserve_ratio = 2,
      max_new_cities_per_year = [1], annual_loss_risk_cap = [1 / 2],
      min_distinct_states_first3_years = 1\<rparr>"

definition cities_zero_capex :: "city_reco list" where
  "cities_zero_capex = [example_city ''Muenchen'' ''Bayern'' 10 (1 / 10) GO 0]"

text \<open>Four years with no launch allowed inside the window, one state asked for.\<close>

definition params_no_launch :: portfolio_params where
  "params_no_launch =
     \<lparr>annual_capex_budget_eur = [100, 100, 100, 100], budget_reserve_ratio = 1 / 10,
      max_new_cities_per_year = [0, 0, 0, 1],
      annual_loss_risk_cap = [1 / 2, 1 / 2, 1 / 2, 1 / 2],
      min_distinct_states_first3_years = 1\<rparr>"

definition cities_one :: "city_reco list" where
  "cities_one = [example_city ''Muenchen'' ''Bayern'' 10 (1 / 10) GO 50]"

subsection \<open>The assignments of a schedule\<close>

text \<open>
  The single writes of \<open>write_back\<close> in the order they happen: the year, the year's
  combination and the candidate id.
\<close>

definition assignments :: "portfolio_params \<Rightarrow> nat list list \<Rightarrow> (nat \<times> nat list \<times> nat) list" where
  "assignments p sched =
     concat (map (\<lambda>(year, combo). map (\<lambda>opt_id. (year, combo, opt_id)) combo)
               (zip [1..<Suc (planning_years p)] sched))"




section \<open>Properties of the strategy evaluator\<close>



lemma evaluate_strategy_break_even:
  "evaluate_strategy cfg strategy_name strategy scenario_name scenario
       spends discounts noise competitor_shock rep = Inr (row, probs) \<Longrightarrow>
   break_even_monthly_spend_eur row =
     effective_fee_of strategy * (1 + inflation_percent scenario / 100)
       / max (np_mean discounts) (1 / 1000) / 12"
  by (auto simp: evaluate_strategy_def Let_def calculate_membership_break_even_def
       split: if_splits sum.splits)

text \<open>
  Claim C8.  \<open>calculate_membership_break_even\<close> returns the yearly break-even spend
  fee times (1 + inflation) over the discount, the discount floored at 0.001, and the
  monthly value is the yearly one over 12.  With fee 35 and no subsidy the effective fee
  is 35, and at discount 0.10 and inflation 0.02 the monthly break-even spend is
  35 * 1.02 / 0.10 / 12, which is 29.75.
\<close>

theorem break_even_spend_formula:
  "break_even_yearly_spend (calculate_membership_break_even fee d infl)
     = fee * (1 + infl) / max d (1 / 1000)
   \<and> break_even_monthly_spend (calculate_membership_break_even fee d infl)
     = break_even_yearly_spend (calculate_membership_break_even fee d infl) / 12
   \<and> effective_fee_of \<lparr>membership_fee_eur = 35, first_year_subsidy_eur = 0,
        incremental_marketing_info_cues = k\<rparr> = 35
   \<and> break_even_monthly_spend (calculate_membership_break_even 35 (10 / 100) (2 / 100))
     = 35 * (102 / 100) / (10 / 100) / 12
   \<and> break_even_monthly_spend (calculate_membership_break_even 35 (10 / 100) (2 / 100))
     = 2975 / 100"
  by (simp add: calculate_membership_break_even_def effective_fee_of_def Let_def)


section \<open>Properties of the rollout optimizer\<close>

subsection \<open>Bundles and the best bundle of a year\<close>

lemma combinations_props:
  "xs \<in> set (combinations ys k) \<Longrightarrow> length xs = k \<and> set xs \<subseteq> set ys \<and> (distinct ys \<longrightarrow> distinct xs)"
proof (induction ys k arbitrary: xs rule: combinations.induct)
  case (1 xs)
  then show ?case by simp
next
  case (2 k)
  then show ?case by simp
next
  case (3 x ys k)
  from "3.prems" consider
      (a) zs where "xs = x # zs" "zs \<in> set (combinations ys k)"
    | (b) "xs \<in> set (combinations ys (Suc k))"
    by auto
  then show ?case
  proof cases
    case a
    from "3.IH"(1)[OF a(2)] a(1) show ?thesis by auto
  next
    case b
    from "3.IH"(2)[OF b] show ?thesis by auto
  qed
qed

lemma empty_bundle_in_yearly_bundles: "empty_bundle \<in> set (yearly_bundles p c year)"
  unfolding yearly_bundles_def Let_def set_sort by simp

lemma yearly_bundles_mem:
  assumes "b \<in> set (yearly_bundles p c year)"
  shows "b = empty_bundle \<or>
    (\<exists>combo. b = make_bundle c combo \<and> combo \<noteq> [] \<and> set combo \<subseteq> {0..<n_candidates c}
       \<and> distinct combo \<and> int (length combo) \<le> max_new_per_year p ! (year - 1)
       \<and> feasible_combo c (usable_budgets p ! (year - 1)) (risk_caps p ! (year - 1)) combo)"
proof (cases "b = empty_bundle")
  case True then show ?thesis by simp
next
  case False
  from assms have "b \<in> set (empty_bundle #
            concat (map (\<lambda>k. map (make_bundle c)
                               (filter (feasible_combo c (usable_budgets p ! (year - 1)) (risk_caps p ! (year - 1)))
                                  (combinations [0..<n_candidates c] (nat k))))
                      [1 .. min (max_new_per_year p ! (year - 1)) (int (n_candidates c))]))"
    unfolding yearly_bundles_def Let_def set_sort .
  with False obtain k combo where k: "1 \<le> k" "k \<le> min (max_new_per_year p ! (year - 1)) (int (n_candidates c))"
    and combo: "combo \<in> set (combinations [0..<n_candidates c] (nat k))"
    and feas: "feasible_combo c (usable_budgets p ! (year - 1)) (risk_caps p ! (year - 1)) combo"
    and b: "b = make_bundle c combo"
    by auto
  from combinations_props[OF combo] have "length combo = nat k" "set combo \<subseteq> {0..<n_candidates c}" "distinct combo"
    by auto
  with k feas b show ?thesis by (intro disjI2 exI[of _ combo]) auto
qed

lemma consider_bundle_Some: "best \<noteq> None \<Longrightarrow> consider_bundle p c year st b best \<noteq> None"
  by (auto simp: consider_bundle_def Let_def split: option.splits)

lemma fold_consider_Some: "best \<noteq> None \<Longrightarrow> fold (consider_bundle p c year st) bs best \<noteq> None"
proof (induction bs arbitrary: best)
  case Nil then show ?case by simp
next
  case (Cons a bs)
  from Cons.prems have "consider_bundle p c year st a best \<noteq> None" by (rule consider_bundle_Some)
  from Cons.IH[OF this] show ?case by simp
qed

lemma fold_consider_accept:
  assumes "b \<in> set bs" "\<And>best. consider_bundle p c year st b best \<noteq> None"
  shows "fold (consider_bundle p c year st) bs best \<noteq> None"
  using assms(1)
proof (induction bs arbitrary: best)
  case Nil then show ?case by simp
next
  case (Cons a bs)
  show ?case
  proof (cases "a = b")
    case True
    then show ?thesis using assms(2) fold_consider_Some by simp
  next
    case False
    with Cons show ?thesis by simp
  qed
qed

lemma empty_bundle_no_overlap: "bundle_mask empty_bundle AND m = 0"
  by (simp add: empty_bundle_def)

lemma best_bundle_after_window:
  assumes "first3_years p < year"
  shows "best_bundle p c year st \<noteq> None"
  unfolding best_bundle_def
proof (rule fold_consider_accept[OF empty_bundle_in_yearly_bundles])
  fix best show "consider_bundle p c year st empty_bundle best \<noteq> None"
    using assms by (auto simp: consider_bundle_def empty_bundle_no_overlap Let_def split: option.splits)
qed

lemma fold_consider_mem:
  "fold (consider_bundle p c year st) bs best = Some (b, s) \<Longrightarrow>
   best = Some (b, s) \<or>
   (b \<in> set bs \<and> bundle_mask b AND launched_mask st = 0
     \<and> (year \<le> first3_years p \<longrightarrow> diversification_reachable p c year st b))"
proof (induction bs arbitrary: best)
  case Nil then show ?case by simp
next
  case (Cons a bs)
  from Cons.prems have "fold (consider_bundle p c year st) bs (consider_bundle p c year st a best) = Some (b, s)"
    by simp
  from Cons.IH[OF this] show ?case
    by (auto simp: consider_bundle_def Let_def split: if_splits option.splits)
qed

lemma best_bundle_mem:
  "best_bundle p c year st = Some (b, s) \<Longrightarrow>
   b \<in> set (yearly_bundles p c year) \<and> bundle_mask b AND launched_mask st = 0
     \<and> (year \<le> first3_years p \<longrightarrow> diversification_reachable p c year st b)"
  unfolding best_bundle_def by (drule fold_consider_mem) auto

subsection \<open>Bit masks and the loop invariant\<close>

lemma bit_fold_or_push:
  "bit (fold (\<lambda>cid m. m OR push_bit cid 1) combo (m0 :: int)) i = (bit m0 i \<or> i \<in> set combo)"
proof (induction combo arbitrary: m0)
  case Nil
  then show ?case by simp
next
  case (Cons a combo)
  have "bit (m0 OR push_bit a 1) i = (bit m0 i \<or> i = a)"
    by (auto simp: bit_or_iff bit_push_bit_iff bit_1_iff bit_exp_iff)
  with Cons show ?case by auto
qed

lemma bit_fold_or_arr:
  "bit (fold (\<lambda>cid m. m OR arr ! cid) combo (m0 :: int)) i
     = (bit m0 i \<or> (\<exists>cid \<in> set combo. bit (arr ! cid) i))"
proof (induction combo arbitrary: m0)
  case Nil
  then show ?case by simp
next
  case (Cons a combo)
  have "bit (m0 OR arr ! a) i = (bit m0 i \<or> bit (arr ! a) i)"
    by (simp add: bit_or_iff)
  with Cons show ?case by auto
qed

lemma and_eq_0_iff_bits: "((a :: int) AND b = 0) = (\<forall>i. \<not> (bit a i \<and> bit b i))"
proof
  assume z: "a AND b = 0"
  show "\<forall>i. \<not> (bit a i \<and> bit b i)"
  proof
    fix i
    have "bit (a AND b) i = (bit a i \<and> bit b i)" by (simp add: bit_and_iff)
    then show "\<not> (bit a i \<and> bit b i)" unfolding z by simp
  qed
next
  assume "\<forall>i. \<not> (bit a i \<and> bit b i)"
  then show "a AND b = 0" by (intro bit_eqI) (simp add: bit_and_iff)
qed

lemma make_bundle_simps:
  "ids (make_bundle c combo) = combo"
  "bit (bundle_mask (make_bundle c combo)) i = (i \<in> set combo)"
  "bit (state_mask (make_bundle c combo)) i = (\<exists>cid \<in> set combo. bit (state_mask_arr c ! cid) i)"
  unfolding make_bundle_def
  by (simp_all only: rollout_bundle.select_convs bit_fold_or_push bit_fold_or_arr) simp_all

lemma empty_bundle_simps:
  "ids empty_bundle = []" "bit (bundle_mask empty_bundle) i = False"
  "bit (state_mask empty_bundle) i = False"
  by (simp_all add: empty_bundle_def)

lemma yearly_bundle_shape:
  assumes "b \<in> set (yearly_bundles p c year)"
  shows "valid_combo p c year (ids b)
    \<and> (\<forall>i. bit (bundle_mask b) i = (i \<in> set (ids b)))
    \<and> (\<forall>i. bit (state_mask b) i = (\<exists>cid \<in> set (ids b). bit (state_mask_arr c ! cid) i))"
  using yearly_bundles_mem[OF assms]
  by (auto simp: valid_combo_def make_bundle_simps empty_bundle_simps)

lemma sched_inv_init: "sched_inv p c init_state"
  by (simp add: sched_inv_def init_state_def)

lemma sched_inv_infeasible:
  "sched_inv p c (st\<lparr>optimization_feasible := f\<rparr>) = sched_inv p c st"
  by (simp add: sched_inv_def)

lemma sched_inv_commit:
  assumes inv: "sched_inv p c st"
    and year: "year = Suc (length (schedule st))" "year \<le> planning_years p"
    and best: "best_bundle p c year st = Some (b, s)"
  shows "sched_inv p c (commit_bundle p year st b)"
proof -
  from best_bundle_mem[OF best] have mem: "b \<in> set (yearly_bundles p c year)"
    and nov: "bundle_mask b AND launched_mask st = 0" by auto
  from yearly_bundle_shape[OF mem] have vc: "valid_combo p c year (ids b)"
    and bm: "\<And>i. bit (bundle_mask b) i = (i \<in> set (ids b))"
    and sm: "\<And>i. bit (state_mask b) i = (\<exists>cid \<in> set (ids b). bit (state_mask_arr c ! cid) i)"
    by auto
  from inv have len: "length (schedule st) \<le> planning_years p"
    and dist: "distinct (concat (schedule st))"
    and lm: "\<And>i. bit (launched_mask st) i = (i \<in> set (concat (schedule st)))"
    and stm: "\<And>i. bit (state_mask_first3 st) i =
               (\<exists>cid \<in> set (concat (take (first3_years p) (schedule st))).
                  bit (state_mask_arr c ! cid) i)"
    and val: "\<And>j. j < length (schedule st) \<Longrightarrow> valid_combo p c (Suc j) (schedule st ! j)"
    by (auto simp: sched_inv_def)
  from nov have disj: "set (ids b) \<inter> set (concat (schedule st)) = {}"
    unfolding and_eq_0_iff_bits bm lm by auto
  from vc have db: "distinct (ids b)" by (simp add: valid_combo_def)
  let ?st' = "commit_bundle p year st b"
  have sch: "schedule ?st' = schedule st @ [ids b]" by (simp add: commit_bundle_def)
  have 1: "length (schedule ?st') \<le> planning_years p" unfolding sch using year by simp
  have 2: "distinct (concat (schedule ?st'))" unfolding sch using dist db disj by auto
  have 3: "\<forall>i. bit (launched_mask ?st') i = (i \<in> set (concat (schedule ?st')))"
    by (auto simp: commit_bundle_def bit_or_iff bm lm)
  have 4: "\<forall>i. bit (state_mask_first3 ?st') i =
               (\<exists>cid \<in> set (concat (take (first3_years p) (schedule ?st'))).
                  bit (state_mask_arr c ! cid) i)"
  proof (cases "year \<le> first3_years p")
    case True
    then have "take (first3_years p) (schedule st @ [ids b]) = schedule st @ [ids b]"
      using year by simp
    moreover have "take (first3_years p) (schedule st) = schedule st" using True year by simp
    ultimately show ?thesis using True stm
      by (auto simp: commit_bundle_def bit_or_iff sm)
  next
    case False
    then have "take (first3_years p) (schedule st @ [ids b]) = take (first3_years p) (schedule st)"
      using year by simp
    then show ?thesis using False stm by (simp add: commit_bundle_def)
  qed
  have 5: "\<forall>j < length (schedule ?st'). valid_combo p c (Suc j) (schedule ?st' ! j)"
    unfolding sch using val vc year(1) by (auto simp: nth_append less_Suc_eq)
  show ?thesis unfolding sched_inv_def by (intro conjI 1 2 3 4 5)
qed

lemma run_years_inv:
  assumes "sched_inv p c st" "years = [Suc (length (schedule st))..<Suc (planning_years p)]"
  shows "sched_inv p c (run_years p c years st)"
  using assms
proof (induction years arbitrary: st)
  case Nil
  then show ?case by simp
next
  case (Cons y ys)
  from Cons.prems(2)[symmetric] have y: "y = Suc (length (schedule st))" "y \<le> planning_years p"
    and ys: "ys = [Suc y..<Suc (planning_years p)]"
    unfolding upt_eq_Cons_conv by auto
  show ?case
  proof (cases "best_bundle p c y st")
    case None
    then show ?thesis using Cons.prems(1) by (simp add: sched_inv_infeasible)
  next
    case (Some bs)
    obtain b s where bs: "bs = (b, s)" by (cases bs)
    have inv': "sched_inv p c (commit_bundle p y st b)"
      using sched_inv_commit[OF Cons.prems(1) y] Some bs by simp
    have "length (schedule (commit_bundle p y st b)) = y" using y by (simp add: commit_bundle_def)
    with ys have "ys = [Suc (length (schedule (commit_bundle p y st b)))..<Suc (planning_years p)]"
      by simp
    from Cons.IH[OF inv' this] show ?thesis using Some bs by simp
  qed
qed


lemma optimize_inv: "sched_inv p c (optimize p c)"
proof -
  have "sched_inv p c (run_years p c [1..<Suc (planning_years p)] init_state)"
    by (rule run_years_inv[OF sched_inv_init]) (simp add: init_state_def)
  then show ?thesis by (simp add: optimize_def Let_def sched_inv_infeasible)
qed

lemma optimize_feasible_cases:
  "optimization_feasible (optimize p c) =
     (optimization_feasible (run_years p c [1..<Suc (planning_years p)] init_state)
      \<and> \<not> (1 \<le> first3_years p
            \<and> int (count_bits (state_mask_first3
                     (run_years p c [1..<Suc (planning_years p)] init_state)))
                < required_states p c))"
  by (simp add: optimize_def Let_def)


subsection \<open>Where the loop can abort\<close>

lemma commit_bundle_feasible:
  "optimization_feasible (commit_bundle p year st b) = optimization_feasible st"
  by (simp add: commit_bundle_def)

lemma run_years_append:
  "optimization_feasible (run_years p c ys st) \<Longrightarrow>
   run_years p c (ys @ zs) st = run_years p c zs (run_years p c ys st)"
  by (induction ys arbitrary: st) (auto split: option.splits)

lemma run_years_abort:
  assumes "optimization_feasible st" "\<not> optimization_feasible (run_years p c years st)"
  shows "\<exists>ys y zs. years = ys @ y # zs \<and> best_bundle p c y (run_years p c ys st) = None"
  using assms
proof (induction years arbitrary: st)
  case Nil
  then show ?case by simp
next
  case (Cons y ys)
  show ?case
  proof (cases "best_bundle p c y st")
    case None
    have "y # ys = [] @ y # ys \<and> best_bundle p c y (run_years p c [] st) = None"
      using None by simp
    then show ?thesis by blast
  next
    case (Some bs)
    obtain b s where bs: "bs = (b, s)" by (cases bs)
    let ?st' = "commit_bundle p y st b"
    have run: "\<And>xs. run_years p c (y # xs) st = run_years p c xs ?st'"
      using Some bs by simp
    have f: "optimization_feasible ?st'" using Cons.prems(1) by (simp add: commit_bundle_feasible)
    have nf: "\<not> optimization_feasible (run_years p c ys ?st')"
      using Cons.prems(2) run by simp
    from Cons.IH[OF f nf] obtain ys1 y1 zs where
      e: "ys = ys1 @ y1 # zs" and n: "best_bundle p c y1 (run_years p c ys1 ?st') = None"
      by blast
    have "y # ys = (y # ys1) @ y1 # zs \<and> best_bundle p c y1 (run_years p c (y # ys1) st) = None"
      using e n run by simp
    then show ?thesis by blast
  qed
qed

lemma upt_split_at:
  "[a..<b] = ys @ y # zs \<Longrightarrow> ys = [a..<y] \<and> a \<le> y \<and> y < b"
proof (induction ys arbitrary: a)
  case Nil
  then show ?case unfolding append_Nil upt_eq_Cons_conv by simp
next
  case (Cons x xs)
  from Cons.prems have x: "a < b" "a = x" and r: "[a + 1..<b] = xs @ y # zs"
    unfolding append_Cons upt_eq_Cons_conv by auto
  from Cons.IH[OF r] have "xs = [a + 1..<y]" "a + 1 \<le> y" "y < b" by auto
  then show ?case using x by (simp add: upt_conv_Cons)
qed
text \<open>
  Claim C10.  For every year the bundle list holds the empty bundle (no ids, score 0,
  capex 0, mean risk 0), whatever the budget and the risk cap, and the empty bundle
  overlaps no launched mask.  After the diversification window every year has a best
  bundle, so when the loop over the planning years ends infeasible, the year without a
  surviving bundle lies inside the window.
\<close>

theorem empty_bundle_blocks_abort_after_window:
  "empty_bundle \<in> set (yearly_bundles p c year)
   \<and> ids empty_bundle = [] \<and> score empty_bundle = 0
   \<and> capex_sum empty_bundle = 0 \<and> risk_avg empty_bundle = 0
   \<and> bundle_mask empty_bundle AND launched = 0
   \<and> (first3_years p < year \<longrightarrow> best_bundle p c year st \<noteq> None)
   \<and> (\<not> optimization_feasible (run_years p c [1..<Suc (planning_years p)] init_state) \<longrightarrow>
        (\<exists>y. 1 \<le> y \<and> y \<le> first3_years p \<and> y \<le> planning_years p
             \<and> best_bundle p c y (run_years p c [1..<y] init_state) = None))"
proof (intro conjI impI)
  show "empty_bundle \<in> set (yearly_bundles p c year)" by (rule empty_bundle_in_yearly_bundles)
  show "ids empty_bundle = []" "score empty_bundle = 0" "capex_sum empty_bundle = 0"
    "risk_avg empty_bundle = 0" by (simp_all add: empty_bundle_def)
  show "bundle_mask empty_bundle AND launched = 0" by (rule empty_bundle_no_overlap)
  show "best_bundle p c year st \<noteq> None" if "first3_years p < year"
    using that by (rule best_bundle_after_window)
  show "\<exists>y. 1 \<le> y \<and> y \<le> first3_years p \<and> y \<le> planning_years p
             \<and> best_bundle p c y (run_years p c [1..<y] init_state) = None"
    if nf: "\<not> optimization_feasible (run_years p c [1..<Suc (planning_years p)] init_state)"
  proof -
    have f0: "optimization_feasible init_state" by (simp add: init_state_def)
    from run_years_abort[OF f0 nf] obtain ys y zs where
      e: "[1..<Suc (planning_years p)] = ys @ y # zs"
      and n: "best_bundle p c y (run_years p c ys init_state) = None" by blast
    from upt_split_at[OF e] have ys: "ys = [1..<y]" and y: "1 \<le> y" "y \<le> planning_years p"
      by auto
    have "y \<le> first3_years p"
    proof (rule ccontr)
      assume "\<not> y \<le> first3_years p"
      then have "best_bundle p c y (run_years p c ys init_state) \<noteq> None"
        by (intro best_bundle_after_window) simp
      with n show False by simp
    qed
    with y n ys show ?thesis by blast
  qed
qed

theorem empty_bundle_blocks_abort_after_window_witness:
  "first3_years params_no_launch < 4
   \<and> best_bundle params_no_launch (make_candidates cities_one) 4 init_state \<noteq> None
   \<and> \<not> optimization_feasible
         (run_years params_no_launch (make_candidates cities_one)
            [1..<Suc (planning_years params_no_launch)] init_state)
   \<and> (\<exists>y. 1 \<le> y \<and> y \<le> first3_years params_no_launch \<and> y \<le> planning_years params_no_launch
          \<and> best_bundle params_no_launch (make_candidates cities_one) y
               (run_years params_no_launch (make_candidates cities_one) [1..<y] init_state) = None)"
proof -
  have a: "first3_years params_no_launch < 4" by code_simp
  have b: "\<not> optimization_feasible
         (run_years params_no_launch (make_candidates cities_one)
            [1..<Suc (planning_years params_no_launch)] init_state)" by code_simp
  from a b empty_bundle_blocks_abort_after_window
    [of params_no_launch "make_candidates cities_one" 4 0 init_state]
  show ?thesis by blast
qed

subsection \<open>Writing the schedule back\<close>

lemma fold_update_length:
  "length (fold (\<lambda>t rs. rs[pos t := g t (rs ! pos t)]) ts rows) = length rows"
  by (induction ts arbitrary: rows) auto

lemma fold_update_other:
  "i \<notin> pos ` set ts \<Longrightarrow> fold (\<lambda>t rs. rs[pos t := g t (rs ! pos t)]) ts rows ! i = rows ! i"
  by (induction ts arbitrary: rows) auto

lemma fold_update_hit:
  assumes "distinct (map pos ts)" "t \<in> set ts" "pos t < length rows"
  shows "fold (\<lambda>t rs. rs[pos t := g t (rs ! pos t)]) ts rows ! pos t = g t (rows ! pos t)"
  using assms
proof (induction ts arbitrary: rows)
  case Nil
  then show ?case by simp
next
  case (Cons a ts)
  let ?rows' = "rows[pos a := g a (rows ! pos a)]"
  show ?case
  proof (cases "a = t")
    case True
    with Cons.prems(1) have "pos t \<notin> pos ` set ts" by auto
    then have "fold (\<lambda>t rs. rs[pos t := g t (rs ! pos t)]) ts ?rows' ! pos t = ?rows' ! pos t"
      by (rule fold_update_other)
    with True Cons.prems(3) show ?thesis by simp
  next
    case False
    with Cons.prems have t: "t \<in> set ts" and d: "distinct (map pos ts)" and ne: "pos a \<noteq> pos t"
      by auto
    have "fold (\<lambda>t rs. rs[pos t := g t (rs ! pos t)]) ts ?rows' ! pos t = g t (?rows' ! pos t)"
      using Cons.IH[OF d t] Cons.prems(3) by simp
    with ne show ?thesis by simp
  qed
qed

lemma assign_city_as_update:
  "assign_city p c year combo =
     (\<lambda>opt_id rs. rs[df_index_arr c ! opt_id :=
              assigned_row p c year combo (rs ! (df_index_arr c ! opt_id))])"
  by (simp add: assign_city_def Let_def fun_eq_iff)

lemma write_back_as_fold:
  "write_back p c sched rows =
     fold (\<lambda>t rs. rs[df_index_arr c ! snd (snd t) :=
                     assigned_row p c (fst t) (fst (snd t)) (rs ! (df_index_arr c ! snd (snd t)))])
       (assignments p sched) rows"
proof -
  have "fold (write_back_year p c) ys rows =
     fold (\<lambda>t rs. rs[df_index_arr c ! snd (snd t) :=
                     assigned_row p c (fst t) (fst (snd t)) (rs ! (df_index_arr c ! snd (snd t)))])
       (concat (map (\<lambda>(year, combo). map (\<lambda>opt_id. (year, combo, opt_id)) combo) ys)) rows"
    for ys
  proof (induction ys arbitrary: rows)
    case Nil
    then show ?case by simp
  next
    case (Cons a ys)
    obtain year combo where a: "a = (year, combo)" by (cases a)
    have step: "write_back_year p c (year, combo) rows =
      fold (\<lambda>t rs. rs[df_index_arr c ! snd (snd t) :=
                     assigned_row p c (fst t) (fst (snd t)) (rs ! (df_index_arr c ! snd (snd t)))])
        (map (\<lambda>opt_id. (year, combo, opt_id)) combo) rows"
      by (simp add: write_back_year_def fold_map comp_def assign_city_as_update)
    show ?case by (simp add: a Cons.IH step)
  qed
  then show ?thesis by (simp add: write_back_def assignments_def)
qed

lemma assignments_mem:
  "(year, combo, opt_id) \<in> set (assignments p sched) =
     (\<exists>j. j < length sched \<and> j < planning_years p \<and> year = Suc j \<and> combo = sched ! j
          \<and> opt_id \<in> set combo)"
proof -
  have z: "((y, cb) \<in> set (zip [1..<Suc (planning_years p)] sched)) =
     (\<exists>j. j < length sched \<and> j < planning_years p \<and> y = Suc j \<and> cb = sched ! j)" for y cb
  proof
    assume "(y, cb) \<in> set (zip [1..<Suc (planning_years p)] sched)"
    then obtain i where i: "i < planning_years p" "i < length sched"
      and e: "y = [1..<Suc (planning_years p)] ! i" "cb = sched ! i"
      by (auto simp: set_zip simp del: upt_Suc)
    from i(1) have "[1..<Suc (planning_years p)] ! i = Suc i" by (simp add: nth_upt del: upt_Suc)
    with i e show "\<exists>j. j < length sched \<and> j < planning_years p \<and> y = Suc j \<and> cb = sched ! j"
      by auto
  next
    assume "\<exists>j. j < length sched \<and> j < planning_years p \<and> y = Suc j \<and> cb = sched ! j"
    then obtain j where j: "j < length sched" "j < planning_years p" "y = Suc j" "cb = sched ! j"
      by blast
    from j(2) have "[1..<Suc (planning_years p)] ! j = Suc j" by (simp add: nth_upt del: upt_Suc)
    with j show "(y, cb) \<in> set (zip [1..<Suc (planning_years p)] sched)"
      unfolding set_zip by (auto simp del: upt_Suc intro!: exI[of _ j])
  qed
  have "(year, combo, opt_id) \<in> set (assignments p sched) =
     ((year, combo) \<in> set (zip [1..<Suc (planning_years p)] sched) \<and> opt_id \<in> set combo)"
    unfolding assignments_def by (auto simp del: upt_Suc)
  then show ?thesis unfolding z by blast
qed

lemma assignments_ids:
  "length sched \<le> planning_years p \<Longrightarrow>
   map (\<lambda>t. snd (snd t)) (assignments p sched) = concat sched"
proof -
  have "map (\<lambda>t. snd (snd t))
          (concat (map (\<lambda>(year, combo). map (\<lambda>opt_id. (year, combo, opt_id)) combo) ys))
        = concat (map snd ys)" for ys :: "(nat \<times> nat list) list"
    by (induction ys) (auto simp: comp_def)
  moreover assume "length sched \<le> planning_years p"
  then have "map snd (zip [1..<Suc (planning_years p)] sched) = sched"
    by (intro map_snd_zip_take[THEN trans]) (simp_all del: upt_Suc)
  ultimately show ?thesis by (simp add: assignments_def del: upt_Suc)
qed

lemma candidate_index_distinct: "distinct (candidate_index recos)"
  by (simp add: candidate_index_def)

lemma candidate_index_mem:
  "(i \<in> set (candidate_index recos)) = (i < length recos \<and> board_signal (recos ! i) \<noteq> NO_GO)"
  by (auto simp: candidate_index_def)

lemma make_candidates_df: "df_index_arr (make_candidates recos) = candidate_index recos"
  by (simp add: make_candidates_def Let_def)

lemma make_candidates_n: "n_candidates (make_candidates recos) = length (candidate_index recos)"
  by (simp add: n_candidates_def make_candidates_df)

lemma make_candidates_nth:
  assumes "k < length (candidate_index recos)"
  shows "capex_arr (make_candidates recos) ! k = capex_estimate_eur (recos ! (candidate_index recos ! k))"
    and "loss_arr (make_candidates recos) ! k = city_prob_loss (recos ! (candidate_index recos ! k))"
    and "state_mask_arr (make_candidates recos) ! k =
           push_bit (state_to_bit (state_list (make_candidates recos))
                       (state (recos ! (candidate_index recos ! k)))) 1"
  using assms by (simp_all add: make_candidates_def Let_def)

lemma distinct_map_nth:
  assumes "distinct df" "distinct xs" "set xs \<subseteq> {0..<length df}"
  shows "distinct (map (\<lambda>k. df ! k) xs)"
proof -
  have "inj_on (\<lambda>k. df ! k) (set xs)"
  proof (rule inj_onI)
    fix x y assume a: "x \<in> set xs" "y \<in> set xs" "df ! x = df ! y"
    with assms(3) have "x < length df" "y < length df" by auto
    with a(3) show "x = y" using nth_eq_iff_index_eq[OF assms(1)] by blast
  qed
  with assms(2) show ?thesis by (simp add: distinct_map)
qed

lemma sched_inv_ids:
  assumes "sched_inv p c st"
  shows "set (concat (schedule st)) \<subseteq> {0..<n_candidates c}"
proof
  fix k assume "k \<in> set (concat (schedule st))"
  then obtain xs where xs: "xs \<in> set (schedule st)" "k \<in> set xs" by auto
  from xs(1) obtain j where "j < length (schedule st)" "schedule st ! j = xs"
    by (auto simp: in_set_conv_nth)
  with xs(2) have j: "j < length (schedule st)" "k \<in> set (schedule st ! j)" by auto
  from assms j(1) have "valid_combo p c (Suc j) (schedule st ! j)" by (simp add: sched_inv_def)
  with j(2) show "k \<in> {0..<n_candidates c}" by (auto simp: valid_combo_def)
qed

lemma write_back_length: "length (write_back p c sched rows) = length rows"
  unfolding write_back_as_fold by (rule fold_update_length)

lemma write_back_other:
  assumes "i \<notin> (\<lambda>k. df_index_arr c ! k) ` set (concat sched)" "length sched \<le> planning_years p"
  shows "write_back p c sched rows ! i = rows ! i"
proof -
  have "(\<lambda>t. df_index_arr c ! snd (snd t)) ` set (assignments p sched)
        = (\<lambda>k. df_index_arr c ! k) ` set (map (\<lambda>t. snd (snd t)) (assignments p sched))"
    by (auto simp: image_iff)
  also have "\<dots> = (\<lambda>k. df_index_arr c ! k) ` set (concat sched)"
    using assms(2) by (simp only: assignments_ids)
  finally have "i \<notin> (\<lambda>t. df_index_arr c ! snd (snd t)) ` set (assignments p sched)"
    using assms(1) by simp
  then show ?thesis unfolding write_back_as_fold by (rule fold_update_other)
qed

lemma write_back_hit:
  assumes inv: "sched_inv p c st"
    and df: "distinct (df_index_arr c)" "set (df_index_arr c) \<subseteq> {0..<length rows}"
    and j: "j < length (schedule st)" and k: "k \<in> set (schedule st ! j)"
  shows "write_back p c (schedule st) rows ! (df_index_arr c ! k)
         = assigned_row p c (Suc j) (schedule st ! j) (rows ! (df_index_arr c ! k))"
proof -
  let ?sched = "schedule st"
  let ?pos = "\<lambda>t :: nat \<times> nat list \<times> nat. df_index_arr c ! snd (snd t)"
  let ?g = "\<lambda>t :: nat \<times> nat list \<times> nat. assigned_row p c (fst t) (fst (snd t))"
  let ?t = "(Suc j, ?sched ! j, k)"
  from inv have len: "length ?sched \<le> planning_years p" and dist: "distinct (concat ?sched)"
    by (auto simp: sched_inv_def)
  from sched_inv_ids[OF inv] have sub: "set (concat ?sched) \<subseteq> {0..<length (df_index_arr c)}"
    by (simp add: n_candidates_def)
  have "map ?pos (assignments p ?sched)
        = map (\<lambda>k. df_index_arr c ! k) (map (\<lambda>t. snd (snd t)) (assignments p ?sched))"
    by simp
  also have "\<dots> = map (\<lambda>k. df_index_arr c ! k) (concat ?sched)"
    using len by (simp only: assignments_ids)
  finally have "distinct (map ?pos (assignments p ?sched))"
    using distinct_map_nth[OF df(1) dist sub] by simp
  moreover have "?t \<in> set (assignments p ?sched)"
    unfolding assignments_mem using j k len by auto
  moreover have "?sched ! j \<in> set ?sched" using j by simp
  with k have "k \<in> set (concat ?sched)" by auto
  with sub df(2) have "?pos ?t < length rows" by (auto simp: subset_iff)
  ultimately have "fold (\<lambda>t rs. rs[?pos t := ?g t (rs ! ?pos t)]) (assignments p ?sched) rows ! ?pos ?t
        = ?g ?t (rows ! ?pos ?t)"
    by (rule fold_update_hit)
  then show ?thesis unfolding write_back_as_fold by simp
qed

subsection \<open>The closing steps keep the rows\<close>

lemma map_rank_zip:
  assumes "\<And>r k. f (r\<lparr>city_rank := k\<rparr>) = f r" "length ks = length xs"
  shows "map f (map (\<lambda>(k, r). r\<lparr>city_rank := k\<rparr>) (zip ks xs)) = map f xs"
proof -
  have "map f (map (\<lambda>(k, r). r\<lparr>city_rank := k\<rparr>) (zip ks xs)) = map f (map snd (zip ks xs))"
    by (simp add: assms(1) split_def)
  then show ?thesis using assms(2) by simp
qed

lemma finalize_mset:
  assumes "\<And>r w. f (r\<lparr>launch_wave := w\<rparr>) = f r" "\<And>r k. f (r\<lparr>city_rank := k\<rparr>) = f r"
  shows "mset (map f (finalize rows)) = mset (map f rows)"
proof -
  let ?labelled = "map (\<lambda>r. r\<lparr>launch_wave := wave_of (rollout_year r)\<rparr>) rows"
  let ?ordered = "sort_key (\<lambda>r. rollout_sort (rollout_year r))
              (sort_key (\<lambda>r. - portfolio_objective_eur r)
                 (sort_key (\<lambda>r. - risk_adjusted_city_score r) ?labelled))"
  have "map f (finalize rows) = map f ?ordered"
    unfolding finalize_def Let_def by (rule map_rank_zip[OF assms(2)]) (simp del: upt_Suc)
  then have 1: "mset (map f (finalize rows)) = mset (map f ?ordered)" by simp
  have "mset ?ordered = mset ?labelled" by simp
  then have "image_mset f (mset ?ordered) = image_mset f (mset ?labelled)" by (rule arg_cong)
  then have 2: "mset (map f ?ordered) = mset (map f ?labelled)" by (simp only: mset_map)
  have 3: "map f ?labelled = map f rows" by (simp add: assms(1) comp_def)
  show ?thesis unfolding 1 2 3 by (rule refl)
qed

lemma finalize_set:
  assumes "\<And>r w. f (r\<lparr>launch_wave := w\<rparr>) = f r" "\<And>r k. f (r\<lparr>city_rank := k\<rparr>) = f r"
  shows "f ` set (finalize rows) = f ` set rows"
proof -
  have "set (map f (finalize rows)) = set (map f rows)"
    using finalize_mset[OF assms, of rows] by (rule mset_eq_setD)
  then show ?thesis by simp
qed

lemma finalize_wave:
  assumes "r \<in> set (finalize rows)"
  shows "launch_wave r = wave_of (rollout_year r)"
proof -
  let ?labelled = "map (\<lambda>r. r\<lparr>launch_wave := wave_of (rollout_year r)\<rparr>) rows"
  let ?ordered = "sort_key (\<lambda>r. rollout_sort (rollout_year r))
              (sort_key (\<lambda>r. - portfolio_objective_eur r)
                 (sort_key (\<lambda>r. - risk_adjusted_city_score r) ?labelled))"
  from assms obtain k r0 where r: "r = r0\<lparr>city_rank := k\<rparr>" and "(k, r0) \<in> set (zip [1..<Suc (length ?ordered)] ?ordered)"
    unfolding finalize_def Let_def by auto
  then have "r0 \<in> set ?ordered" by (auto dest: set_zip_rightD)
  then have "r0 \<in> set ?labelled" by simp
  then show ?thesis using r by auto
qed

lemma finalize_length: "length (finalize rows) = length rows"
  by (simp add: finalize_def Let_def del: upt_Suc)

subsection \<open>Rows that stay unassigned\<close>

lemma init_plan_simps:
  "rollout_year (init_plan x) = - 1" "selected_by_optimizer (init_plan x) = False"
  "optimization_status (init_plan x) = ''UNASSIGNED''"
  "board_signal (init_plan x) = board_signal x" "state (init_plan x) = state x"
  "city (init_plan x) = city x"
  "capex_estimate_eur (init_plan x) = capex_estimate_eur x"
  "city_prob_loss (init_plan x) = city_prob_loss x"
  by (simp_all add: init_plan_def city_reco.defs city_plan.defs)

lemma assigned_row_simps:
  "rollout_year (assigned_row p c year combo r) = int year"
  "selected_by_optimizer (assigned_row p c year combo r) = True"
  "board_signal (assigned_row p c year combo r) = board_signal r"
  "state (assigned_row p c year combo r) = state r"
  "city (assigned_row p c year combo r) = city r"
  "capex_estimate_eur (assigned_row p c year combo r) = capex_estimate_eur r"
  "city_prob_loss (assigned_row p c year combo r) = city_prob_loss r"
  by (simp_all add: assigned_row_def)

lemma set_status_simps:
  "x \<in> set (set_status s (map init_plan recos)) \<Longrightarrow>
     optimization_status x = s \<and> rollout_year x = - 1 \<and> selected_by_optimizer x = False"
  by (auto simp: set_status_def init_plan_simps)

lemma wave_of_unassigned: "wave_of (- 1) = ''Hold''"
  by (simp add: wave_of_def)

text \<open>The table before the closing steps, for each of the three outcomes.\<close>

lemma build_rollout_plan_cases:
  "build_rollout_plan p recos =
     finalize
       (if candidate_index recos = []
        then set_status ''NO_FEASIBLE_GO_OR_CONDITIONAL_CITIES'' (map init_plan recos)
        else if \<not> optimization_feasible (optimize p (make_candidates recos))
        then set_status ''INFEASIBLE_CONSTRAINT_SET'' (map init_plan recos)
        else write_back p (make_candidates recos)
               (schedule (optimize p (make_candidates recos))) (map init_plan recos))"
  by (simp add: build_rollout_plan_def Let_def)

lemma plan_row_origin:
  assumes "r \<in> set (finalize rows)"
  shows "\<exists>x \<in> set rows. optimization_status x = optimization_status r
           \<and> rollout_year x = rollout_year r
           \<and> selected_by_optimizer x = selected_by_optimizer r
           \<and> board_signal x = board_signal r"
proof -
  let ?f = "\<lambda>r. (optimization_status r, rollout_year r, selected_by_optimizer r, board_signal r)"
  have "?f ` set (finalize rows) = ?f ` set rows" by (rule finalize_set) simp_all
  with assms have "?f r \<in> ?f ` set rows" by blast
  then show ?thesis by auto
qed

lemma write_back_row_cases:
  assumes inv: "sched_inv p (make_candidates recos) st"
    and x: "x \<in> set (write_back p (make_candidates recos) (schedule st) (map init_plan recos))"
  shows "(\<exists>i < length recos. x = init_plan (recos ! i))
       \<or> (\<exists>i j. i < length recos \<and> board_signal (recos ! i) \<noteq> NO_GO \<and> j < length (schedule st)
              \<and> x = assigned_row p (make_candidates recos) (Suc j) (schedule st ! j)
                      (init_plan (recos ! i)))"
proof -
  let ?c = "make_candidates recos"
  let ?rows = "map init_plan recos"
  let ?W = "write_back p ?c (schedule st) ?rows"
  from x obtain i where i: "i < length recos" and xi: "x = ?W ! i"
    by (auto simp: in_set_conv_nth write_back_length)
  from inv have len: "length (schedule st) \<le> planning_years p" by (simp add: sched_inv_def)
  have df: "distinct (df_index_arr ?c)" "set (df_index_arr ?c) \<subseteq> {0..<length ?rows}"
    by (auto simp: make_candidates_df candidate_index_distinct candidate_index_mem)
  show ?thesis
  proof (cases "i \<in> (\<lambda>k. df_index_arr ?c ! k) ` set (concat (schedule st))")
    case False
    then have "?W ! i = ?rows ! i" using len by (rule write_back_other)
    with i xi show ?thesis by auto
  next
    case True
    then obtain k where k: "k \<in> set (concat (schedule st))" and ik: "i = df_index_arr ?c ! k"
      by auto
    from k obtain xs where xs: "xs \<in> set (schedule st)" "k \<in> set xs" by auto
    from xs(1) obtain j where j: "j < length (schedule st)" and "schedule st ! j = xs"
      by (auto simp: in_set_conv_nth)
    with xs(2) have kj: "k \<in> set (schedule st ! j)" by simp
    from sched_inv_ids[OF inv] k have "k < length (candidate_index recos)"
      by (auto simp: make_candidates_n)
    then have "i \<in> set (candidate_index recos)" using ik by (simp add: make_candidates_df)
    then have ng: "board_signal (recos ! i) \<noteq> NO_GO" by (simp add: candidate_index_mem)
    have "?W ! i = assigned_row p ?c (Suc j) (schedule st ! j) (?rows ! i)"
      unfolding ik by (rule write_back_hit[OF inv df j kj])
    with i xi ng j show ?thesis by auto
  qed
qed
lemma no_candidates_status:
  assumes "candidate_index recos = []" "r \<in> set (build_rollout_plan p recos)"
  shows "optimization_status r = ''NO_FEASIBLE_GO_OR_CONDITIONAL_CITIES''"
proof -
  from assms have "r \<in> set (finalize
      (set_status ''NO_FEASIBLE_GO_OR_CONDITIONAL_CITIES'' (map init_plan recos)))"
    by (simp add: build_rollout_plan_cases)
  from plan_row_origin[OF this] show ?thesis by (auto dest: set_status_simps)
qed

text \<open>
  Claim C4.  When candidates exist and the optimizer ends infeasible (a year without a
  surviving bundle, or the diversification floor unmet after the scan), every row of
  the plan has the status INFEASIBLE_CONSTRAINT_SET, which is not the status
  NO_FEASIBLE_GO_OR_CONDITIONAL_CITIES that every row has when there is no candidate,
  and every row keeps rollout year -1, launch wave Hold and selected-by-optimizer
  false.
\<close>

theorem infeasible_plan_assigns_no_city:
  assumes "candidate_index recos \<noteq> []"
    and "\<not> optimization_feasible
            (run_years p (make_candidates recos) [1..<Suc (planning_years p)] init_state)
         \<or> (1 \<le> first3_years p
             \<and> int (count_bits (state_mask_first3
                   (run_years p (make_candidates recos) [1..<Suc (planning_years p)] init_state)))
                 < required_states p (make_candidates recos))"
    and "r \<in> set (build_rollout_plan p recos)"
  shows "optimization_status r = ''INFEASIBLE_CONSTRAINT_SET''
     \<and> rollout_year r = - 1 \<and> launch_wave r = ''Hold'' \<and> selected_by_optimizer r = False
     \<and> (\<forall>q recos' r'. candidate_index recos' = [] \<and> r' \<in> set (build_rollout_plan q recos')
           \<longrightarrow> optimization_status r' = ''NO_FEASIBLE_GO_OR_CONDITIONAL_CITIES''
               \<and> optimization_status r' \<noteq> optimization_status r)"
proof -
  from assms(2) have nf: "\<not> optimization_feasible (optimize p (make_candidates recos))"
    unfolding optimize_feasible_cases by blast
  with assms(1,3) have fin: "r \<in> set (finalize
      (set_status ''INFEASIBLE_CONSTRAINT_SET'' (map init_plan recos)))"
    by (simp add: build_rollout_plan_cases)
  from plan_row_origin[OF fin] have a: "optimization_status r = ''INFEASIBLE_CONSTRAINT_SET''"
    and b: "rollout_year r = - 1" and c: "selected_by_optimizer r = False"
    by (auto dest: set_status_simps)
  from finalize_wave[OF fin] b have d: "launch_wave r = ''Hold''"
    by (simp add: wave_of_unassigned)
  have e: "optimization_status r' = ''NO_FEASIBLE_GO_OR_CONDITIONAL_CITIES''
               \<and> optimization_status r' \<noteq> optimization_status r"
    if "candidate_index recos' = [] \<and> r' \<in> set (build_rollout_plan q recos')" for q recos' r'
    using no_candidates_status[of recos' r' q] that a by simp
  from a b c d e show ?thesis by blast
qed

theorem infeasible_plan_assigns_no_city_witness:
  "candidate_index cities_one \<noteq> []
   \<and> \<not> optimization_feasible
         (run_years params_no_launch (make_candidates cities_one)
            [1..<Suc (planning_years params_no_launch)] init_state)
   \<and> hd (build_rollout_plan params_no_launch cities_one)
        \<in> set (build_rollout_plan params_no_launch cities_one)
   \<and> optimization_status (hd (build_rollout_plan params_no_launch cities_one))
        = ''INFEASIBLE_CONSTRAINT_SET''
   \<and> rollout_year (hd (build_rollout_plan params_no_launch cities_one)) = - 1
   \<and> launch_wave (hd (build_rollout_plan params_no_launch cities_one)) = ''Hold''
   \<and> selected_by_optimizer (hd (build_rollout_plan params_no_launch cities_one)) = False"
proof -
  have a: "candidate_index cities_one \<noteq> []" by code_simp
  have b: "\<not> optimization_feasible
         (run_years params_no_launch (make_candidates cities_one)
            [1..<Suc (planning_years params_no_launch)] init_state)" by code_simp
  have "length (build_rollout_plan params_no_launch cities_one) = length (map init_plan cities_one)"
    unfolding build_rollout_plan_cases finalize_length
    by (simp add: set_status_def write_back_length)
  then have "build_rollout_plan params_no_launch cities_one \<noteq> []"
    by (auto simp: cities_one_def)
  then have c: "hd (build_rollout_plan params_no_launch cities_one)
        \<in> set (build_rollout_plan params_no_launch cities_one)" by simp
  from infeasible_plan_assigns_no_city[OF a disjI1[OF b] c] a b c
  show ?thesis by blast
qed

text \<open>
  Claim C5.  A city whose board signal is NO-GO has, in every plan, rollout year -1, is
  not selected by the optimizer, and its launch wave is Hold.
\<close>

theorem no_go_city_never_assigned:
  assumes "r \<in> set (build_rollout_plan p recos)" "board_signal r = NO_GO"
  shows "rollout_year r = - 1 \<and> selected_by_optimizer r = False \<and> launch_wave r = ''Hold''"
proof -
  let ?c = "make_candidates recos"
  let ?rows = "if candidate_index recos = []
        then set_status ''NO_FEASIBLE_GO_OR_CONDITIONAL_CITIES'' (map init_plan recos)
        else if \<not> optimization_feasible (optimize p ?c)
        then set_status ''INFEASIBLE_CONSTRAINT_SET'' (map init_plan recos)
        else write_back p ?c (schedule (optimize p ?c)) (map init_plan recos)"
  from assms(1) have fin: "r \<in> set (finalize ?rows)" by (simp only: build_rollout_plan_cases)
  from plan_row_origin[OF fin] obtain x where x: "x \<in> set ?rows"
    and e: "rollout_year x = rollout_year r" "selected_by_optimizer x = selected_by_optimizer r"
      "board_signal x = board_signal r" by blast
  have "rollout_year x = - 1 \<and> selected_by_optimizer x = False"
  proof (cases "candidate_index recos = [] \<or> \<not> optimization_feasible (optimize p ?c)")
    case True
    with x show ?thesis by (auto dest: set_status_simps split: if_splits)
  next
    case False
    with x have "x \<in> set (write_back p ?c (schedule (optimize p ?c)) (map init_plan recos))"
      by simp
    from write_back_row_cases[OF optimize_inv this] e(3) assms(2)
    show ?thesis by (auto simp: init_plan_simps assigned_row_simps)
  qed
  with e have "rollout_year r = - 1" "selected_by_optimizer r = False" by auto
  moreover from finalize_wave[OF fin] this(1) have "launch_wave r = ''Hold''"
    by (simp add: wave_of_unassigned)
  ultimately show ?thesis by simp
qed

theorem no_go_city_never_assigned_witness:
  "last (build_rollout_plan params_two_states cities_two_states)
      \<in> set (build_rollout_plan params_two_states cities_two_states)
   \<and> board_signal (last (build_rollout_plan params_two_states cities_two_states)) = NO_GO
   \<and> rollout_year (last (build_rollout_plan params_two_states cities_two_states)) = - 1
   \<and> selected_by_optimizer (last (build_rollout_plan params_two_states cities_two_states)) = False
   \<and> launch_wave (last (build_rollout_plan params_two_states cities_two_states)) = ''Hold''"
proof -
  have s: "map board_signal (build_rollout_plan params_two_states cities_two_states)
           = [GO, GO, NO_GO]" by code_simp
  then have ne: "build_rollout_plan params_two_states cities_two_states \<noteq> []" by auto
  then have a: "last (build_rollout_plan params_two_states cities_two_states)
      \<in> set (build_rollout_plan params_two_states cities_two_states)" by simp
  have "board_signal (last (build_rollout_plan params_two_states cities_two_states))
        = last (map board_signal (build_rollout_plan params_two_states cities_two_states))"
    using ne by (simp add: last_map)
  then have b: "board_signal (last (build_rollout_plan params_two_states cities_two_states)) = NO_GO"
    unfolding s by simp
  from no_go_city_never_assigned[OF a b] a b show ?thesis by blast
qed

subsection \<open>The rows of one rollout year\<close>

lemma mset_map_filter_pair:
  "mset (map f (filter (\<lambda>r. g r = v) xs))
     = image_mset snd (filter_mset (\<lambda>t. fst t = v) (mset (map (\<lambda>r. (g r, f r)) xs)))"
  by (induction xs) auto

lemma finalize_year_rows:
  assumes "\<And>r w. f (r\<lparr>launch_wave := w\<rparr>) = f r" "\<And>r k. f (r\<lparr>city_rank := k\<rparr>) = f r"
  shows "mset (map f (filter (\<lambda>r. rollout_year r = v) (finalize rows)))
       = mset (map f (filter (\<lambda>r. rollout_year r = v) rows))"
proof -
  have "mset (map (\<lambda>r. (rollout_year r, f r)) (finalize rows))
      = mset (map (\<lambda>r. (rollout_year r, f r)) rows)"
    by (rule finalize_mset) (simp_all add: assms)
  then show ?thesis unfolding mset_map_filter_pair by simp
qed

lemma mset_filter_by_index:
  assumes "distinct ks" "\<And>i. i < length ws \<Longrightarrow> P (ws ! i) = (i \<in> set ks)"
    "set ks \<subseteq> {0..<length ws}"
  shows "mset (map f (filter P ws)) = mset (map (\<lambda>k. f (ws ! k)) ks)"
proof -
  let ?L = "filter (\<lambda>i. P (ws ! i)) [0..<length ws]"
  have "filter P ws = filter P (map (\<lambda>i. ws ! i) [0..<length ws])" by (simp add: map_nth)
  also have "\<dots> = map (\<lambda>i. ws ! i) ?L" by (simp add: filter_map comp_def)
  finally have 1: "map f (filter P ws) = map (\<lambda>k. f (ws ! k)) ?L" by simp
  have sL: "set ?L = set ks" using assms(2,3) by auto
  have dL: "distinct ?L" by simp
  from set_eq_iff_mset_eq_distinct[OF dL assms(1)] sL have "mset ?L = mset ks" by blast
  then have "image_mset (\<lambda>k. f (ws ! k)) (mset ?L) = image_mset (\<lambda>k. f (ws ! k)) (mset ks)"
    by (rule arg_cong)
  then have "mset (map (\<lambda>k. f (ws ! k)) ?L) = mset (map (\<lambda>k. f (ws ! k)) ks)"
    by (simp only: mset_map)
  with 1 show ?thesis by simp
qed

text \<open>The combination scheduled for a year; none once the schedule has ended.\<close>

lemma write_back_year_iff:
  assumes inv: "sched_inv p (make_candidates recos) st" and i: "i < length recos" and y: "1 \<le> y"
  shows "(rollout_year (write_back p (make_candidates recos) (schedule st) (map init_plan recos) ! i)
            = int y)
       = (y \<le> length (schedule st)
          \<and> i \<in> (\<lambda>k. candidate_index recos ! k) ` set (schedule st ! (y - 1)))"
proof -
  let ?c = "make_candidates recos"
  let ?rows = "map init_plan recos"
  let ?W = "write_back p ?c (schedule st) ?rows"
  from inv have len: "length (schedule st) \<le> planning_years p"
    and dist: "distinct (concat (schedule st))" by (auto simp: sched_inv_def)
  have df: "distinct (df_index_arr ?c)" "set (df_index_arr ?c) \<subseteq> {0..<length ?rows}"
    by (auto simp: make_candidates_df candidate_index_distinct candidate_index_mem)
  have ids: "set (concat (schedule st)) \<subseteq> {0..<length (candidate_index recos)}"
    using sched_inv_ids[OF inv] by (simp add: make_candidates_n)
  have hit: "rollout_year (?W ! (candidate_index recos ! k)) = int (Suc j)"
    if "j < length (schedule st)" "k \<in> set (schedule st ! j)" for j k
    using write_back_hit[OF inv df that] by (simp add: make_candidates_df assigned_row_simps)
  show ?thesis
  proof
    assume a: "rollout_year (?W ! i) = int y"
    have "i \<in> (\<lambda>k. df_index_arr ?c ! k) ` set (concat (schedule st))"
    proof (rule ccontr)
      assume "\<not> ?thesis"
      then have "?W ! i = ?rows ! i" using len by (rule write_back_other)
      with a i y show False by (simp add: init_plan_simps)
    qed
    then obtain k where k: "k \<in> set (concat (schedule st))" and ik: "i = candidate_index recos ! k"
      by (auto simp: make_candidates_df)
    from k obtain xs where xs: "xs \<in> set (schedule st)" "k \<in> set xs" by auto
    from xs(1) obtain j where j: "j < length (schedule st)" and "schedule st ! j = xs"
      by (auto simp: in_set_conv_nth)
    with xs(2) have kj: "k \<in> set (schedule st ! j)" by simp
    from hit[OF j kj] a ik have "y = Suc j" by simp
    with j kj ik show "y \<le> length (schedule st)
          \<and> i \<in> (\<lambda>k. candidate_index recos ! k) ` set (schedule st ! (y - 1))" by auto
  next
    assume "y \<le> length (schedule st)
          \<and> i \<in> (\<lambda>k. candidate_index recos ! k) ` set (schedule st ! (y - 1))"
    then obtain k where "y \<le> length (schedule st)" "k \<in> set (schedule st ! (y - 1))"
      "i = candidate_index recos ! k" by auto
    with y hit[of "y - 1" k] show "rollout_year (?W ! i) = int y" by simp
  qed
qed

lemma plan_year_rows:
  assumes f: "\<And>r w. f (r\<lparr>launch_wave := w\<rparr>) = f r" "\<And>r k. f (r\<lparr>city_rank := k\<rparr>) = f r"
    and y: "1 \<le> y"
  shows "mset (map f (filter (\<lambda>r. rollout_year r = int y) (build_rollout_plan p recos)))
       = (if candidate_index recos \<noteq> [] \<and> optimization_feasible (optimize p (make_candidates recos))
             \<and> y \<le> length (schedule (optimize p (make_candidates recos)))
          then mset (map (\<lambda>k. f (assigned_row p (make_candidates recos) y
                                   (schedule (optimize p (make_candidates recos)) ! (y - 1))
                                   (init_plan (recos ! (candidate_index recos ! k)))))
                      (schedule (optimize p (make_candidates recos)) ! (y - 1)))
          else {#})"
proof -
  let ?c = "make_candidates recos"
  let ?st = "optimize p ?c"
  let ?rows = "map init_plan recos"
  let ?W = "write_back p ?c (schedule ?st) ?rows"
  let ?P = "\<lambda>r. rollout_year r = int y"
  have unassigned: "filter ?P (set_status s ?rows) = []" for s
    using y by (auto simp: filter_empty_conv dest!: set_status_simps)
  show ?thesis
  proof (cases "candidate_index recos \<noteq> [] \<and> optimization_feasible ?st")
    case False
    then have "build_rollout_plan p recos = finalize (set_status ''NO_FEASIBLE_GO_OR_CONDITIONAL_CITIES'' ?rows)
       \<or> build_rollout_plan p recos = finalize (set_status ''INFEASIBLE_CONSTRAINT_SET'' ?rows)"
      by (auto simp: build_rollout_plan_cases)
    then obtain s where plan: "build_rollout_plan p recos = finalize (set_status s ?rows)"
      by blast
    have "mset (map f (filter ?P (finalize (set_status s ?rows))))
        = mset (map f (filter ?P (set_status s ?rows)))"
      by (rule finalize_year_rows[OF f])
    then have "mset (map f (filter ?P (build_rollout_plan p recos))) = {#}"
      unfolding plan unassigned by simp
    with False show ?thesis by auto
  next
    case True
    then have plan: "build_rollout_plan p recos = finalize ?W"
      by (simp add: build_rollout_plan_cases)
    have inv: "sched_inv p ?c ?st" by (rule optimize_inv)
    have lenW: "length ?W = length recos" by (simp add: write_back_length)
    have df: "distinct (df_index_arr ?c)" "set (df_index_arr ?c) \<subseteq> {0..<length ?rows}"
      by (auto simp: make_candidates_df candidate_index_distinct candidate_index_mem)
    have 1: "mset (map f (filter ?P (build_rollout_plan p recos))) = mset (map f (filter ?P ?W))"
      unfolding plan by (rule finalize_year_rows[OF f])
    show ?thesis
    proof (cases "y \<le> length (schedule ?st)")
      case False
      have "\<not> ?P (?W ! i)" if "i < length recos" for i
        using write_back_year_iff[OF inv that y] False by simp
      then have "filter ?P ?W = []"
        by (auto simp: filter_empty_conv in_set_conv_nth lenW)
      with 1 False show ?thesis by simp
    next
      case yl: True
      let ?combo = "schedule ?st ! (y - 1)"
      let ?ks = "map (\<lambda>k. candidate_index recos ! k) ?combo"
      from yl y have j: "y - 1 < length (schedule ?st)" by simp
      from inv j have "valid_combo p ?c (Suc (y - 1)) ?combo" by (simp add: sched_inv_def)
      then have dc: "distinct ?combo" and sc: "set ?combo \<subseteq> {0..<length (candidate_index recos)}"
        by (auto simp: valid_combo_def make_candidates_n)
      have dks: "distinct ?ks" by (rule distinct_map_nth[OF candidate_index_distinct dc sc])
      have sks: "set ?ks \<subseteq> {0..<length ?W}"
      proof
        fix i assume "i \<in> set ?ks"
        then obtain k where k: "k \<in> set ?combo" "i = candidate_index recos ! k" by auto
        from k(1) sc have "k < length (candidate_index recos)" by auto
        then have "candidate_index recos ! k \<in> set (candidate_index recos)" by (rule nth_mem)
        then show "i \<in> {0..<length ?W}" using k(2) by (simp add: candidate_index_mem lenW)
      qed
      have iff: "?P (?W ! i) = (i \<in> set ?ks)" if "i < length ?W" for i
        using write_back_year_iff[OF inv _ y, of i] that yl by (simp add: lenW)
      have "mset (map f (filter ?P ?W)) = mset (map (\<lambda>k. f (?W ! k)) ?ks)"
        by (rule mset_filter_by_index[OF dks iff sks])
      also have "map (\<lambda>k. f (?W ! k)) ?ks
          = map (\<lambda>k. f (assigned_row p ?c y ?combo (init_plan (recos ! (candidate_index recos ! k))))) ?combo"
      proof -
        have "?W ! (candidate_index recos ! k) =
            assigned_row p ?c y ?combo (init_plan (recos ! (candidate_index recos ! k)))"
          if k: "k \<in> set ?combo" for k
        proof -
          from k sc have "k < length (candidate_index recos)" by auto
          then have "candidate_index recos ! k \<in> set (candidate_index recos)" by (rule nth_mem)
          then have "candidate_index recos ! k < length recos" by (simp add: candidate_index_mem)
          with write_back_hit[OF inv df j k] y show ?thesis by (simp add: make_candidates_df)
        qed
        then show ?thesis by (simp add: comp_def)
      qed
      finally show ?thesis using 1 True yl by simp
    qed
  qed
qed
lemma write_back_nth_city:
  assumes inv: "sched_inv p (make_candidates recos) st" and i: "i < length recos"
  shows "city (write_back p (make_candidates recos) (schedule st) (map init_plan recos) ! i)
         = city (recos ! i)"
proof -
  let ?c = "make_candidates recos"
  let ?rows = "map init_plan recos"
  let ?W = "write_back p ?c (schedule st) ?rows"
  from inv have len: "length (schedule st) \<le> planning_years p" by (simp add: sched_inv_def)
  have df: "distinct (df_index_arr ?c)" "set (df_index_arr ?c) \<subseteq> {0..<length ?rows}"
    by (auto simp: make_candidates_df candidate_index_distinct candidate_index_mem)
  show ?thesis
  proof (cases "i \<in> (\<lambda>k. df_index_arr ?c ! k) ` set (concat (schedule st))")
    case False
    then have "?W ! i = ?rows ! i" using len by (rule write_back_other)
    with i show ?thesis by (simp add: init_plan_simps)
  next
    case True
    then obtain k where k: "k \<in> set (concat (schedule st))" and ik: "i = df_index_arr ?c ! k"
      by auto
    from k obtain xs where xs: "xs \<in> set (schedule st)" "k \<in> set xs" by auto
    from xs(1) obtain j where j: "j < length (schedule st)" and "schedule st ! j = xs"
      by (auto simp: in_set_conv_nth)
    with xs(2) have kj: "k \<in> set (schedule st ! j)" by simp
    have "?W ! i = assigned_row p ?c (Suc j) (schedule st ! j) (?rows ! i)"
      unfolding ik by (rule write_back_hit[OF inv df j kj])
    with i show ?thesis by (simp add: assigned_row_simps init_plan_simps)
  qed
qed

lemma plan_city_mset: "mset (map city (build_rollout_plan p recos)) = mset (map city recos)"
proof -
  let ?c = "make_candidates recos"
  let ?W = "write_back p ?c (schedule (optimize p ?c)) (map init_plan recos)"
  have s: "map city (set_status s (map init_plan recos)) = map city recos" for s
    by (simp add: set_status_def init_plan_simps comp_def)
  have w: "map city ?W = map city recos"
    by (rule nth_equalityI)
       (simp_all add: write_back_length write_back_nth_city[OF optimize_inv])
  let ?rows = "if candidate_index recos = []
        then set_status ''NO_FEASIBLE_GO_OR_CONDITIONAL_CITIES'' (map init_plan recos)
        else if \<not> optimization_feasible (optimize p ?c)
        then set_status ''INFEASIBLE_CONSTRAINT_SET'' (map init_plan recos)
        else ?W"
  have m: "map city ?rows = map city recos" using s w by presburger
  have "mset (map city (finalize ?rows)) = mset (map city ?rows)"
    by (rule finalize_mset) simp_all
  then show ?thesis unfolding build_rollout_plan_cases m .
qed

lemma planning_years_nth:
  assumes "j < planning_years p"
  shows "usable_budgets p ! j = annual_capex_budget_eur p ! j * max 0 (1 - budget_reserve_ratio p)"
    and "risk_caps p ! j = annual_loss_risk_cap p ! j"
    and "max_new_per_year p ! j = max_new_cities_per_year p ! j"
  using assms
  by (simp_all add: usable_budgets_def annual_budgets_def risk_caps_def max_new_per_year_def
        planning_years_def)

text \<open>
  Claim C3, amended.  For every year with at least one assigned city, the capex
  estimates of the cities assigned to the year sum to at most the year's usable budget,
  which is the gross budget times max(0, 1 - reserve ratio); the mean of their loss
  probabilities is at most the year's risk cap; their number is at most the year's
  max-new-cities limit; the combinations scheduled for different years share no
  candidate, and the plan has one row per input city, so no city has two years.
\<close>

theorem assigned_year_respects_limits:
  assumes y: "1 \<le> y"
    and a: "assigned = filter (\<lambda>r. rollout_year r = int y) (build_rollout_plan p recos)"
    and ne: "assigned \<noteq> []"
  shows "y \<le> planning_years p
     \<and> sum_list (map capex_estimate_eur assigned)
           \<le> annual_capex_budget_eur p ! (y - 1) * max 0 (1 - budget_reserve_ratio p)
     \<and> np_mean (map city_prob_loss assigned) \<le> annual_loss_risk_cap p ! (y - 1)
     \<and> int (length assigned) \<le> max_new_cities_per_year p ! (y - 1)
     \<and> distinct (concat (schedule (optimize p (make_candidates recos))))
     \<and> mset (map city (build_rollout_plan p recos)) = mset (map city recos)"
proof -
  let ?c = "make_candidates recos"
  let ?st = "optimize p ?c"
  let ?combo = "schedule ?st ! (y - 1)"
  have inv: "sched_inv p ?c ?st" by (rule optimize_inv)
  have cap: "mset (map capex_estimate_eur assigned)
       = (if candidate_index recos \<noteq> [] \<and> optimization_feasible ?st \<and> y \<le> length (schedule ?st)
          then mset (map (\<lambda>k. capex_estimate_eur (assigned_row p ?c y ?combo
                                   (init_plan (recos ! (candidate_index recos ! k))))) ?combo)
          else {#})"
    unfolding a by (rule plan_year_rows[OF _ _ y]) simp_all
  have los: "mset (map city_prob_loss assigned)
       = (if candidate_index recos \<noteq> [] \<and> optimization_feasible ?st \<and> y \<le> length (schedule ?st)
          then mset (map (\<lambda>k. city_prob_loss (assigned_row p ?c y ?combo
                                   (init_plan (recos ! (candidate_index recos ! k))))) ?combo)
          else {#})"
    unfolding a by (rule plan_year_rows[OF _ _ y]) simp_all
  from ne have "mset (map capex_estimate_eur assigned) \<noteq> {#}" by simp
  with cap have yl: "y \<le> length (schedule ?st)" by (auto split: if_splits)
  from inv have len: "length (schedule ?st) \<le> planning_years p"
    and dist: "distinct (concat (schedule ?st))" by (auto simp: sched_inv_def)
  from yl y have j: "y - 1 < length (schedule ?st)" by simp
  with len have jp: "y - 1 < planning_years p" by simp
  from inv j have vc: "valid_combo p ?c (Suc (y - 1)) ?combo" by (simp add: sched_inv_def)
  then have sc: "set ?combo \<subseteq> {0..<length (candidate_index recos)}"
    by (auto simp: valid_combo_def make_candidates_n)
  have capm: "map (\<lambda>k. capex_estimate_eur (assigned_row p ?c y ?combo
                (init_plan (recos ! (candidate_index recos ! k))))) ?combo
            = pick (capex_arr ?c) ?combo"
    unfolding pick_def using sc
    by (intro map_cong) (auto simp: assigned_row_simps init_plan_simps make_candidates_nth)
  have losm: "map (\<lambda>k. city_prob_loss (assigned_row p ?c y ?combo
                (init_plan (recos ! (candidate_index recos ! k))))) ?combo
            = pick (loss_arr ?c) ?combo"
    unfolding pick_def using sc
    by (intro map_cong) (auto simp: assigned_row_simps init_plan_simps make_candidates_nth)
  from cap ne have cap': "mset (map capex_estimate_eur assigned) = mset (pick (capex_arr ?c) ?combo)"
    unfolding capm by (auto split: if_splits)
  from los ne cap have los': "mset (map city_prob_loss assigned) = mset (pick (loss_arr ?c) ?combo)"
    unfolding losm by (auto split: if_splits)
  from cap' have "size (mset (map capex_estimate_eur assigned)) = size (mset (pick (capex_arr ?c) ?combo))"
    by simp
  then have lc: "length assigned = length ?combo" by (simp add: pick_def)
  with ne have cne: "?combo \<noteq> []" by auto
  from cap' have "sum_mset (mset (map capex_estimate_eur assigned))
      = sum_mset (mset (pick (capex_arr ?c) ?combo))" by simp
  then have sc': "sum_list (map capex_estimate_eur assigned) = sum_list (pick (capex_arr ?c) ?combo)"
    by (simp only: sum_mset_sum_list)
  from los' have "sum_mset (mset (map city_prob_loss assigned))
      = sum_mset (mset (pick (loss_arr ?c) ?combo))" by simp
  then have "sum_list (map city_prob_loss assigned) = sum_list (pick (loss_arr ?c) ?combo)"
    by (simp only: sum_mset_sum_list)
  then have sl': "np_mean (map city_prob_loss assigned) = np_mean (pick (loss_arr ?c) ?combo)"
    using lc by (simp add: np_mean_def pick_def)
  from vc cne y have feas: "feasible_combo ?c (usable_budgets p ! (y - 1)) (risk_caps p ! (y - 1)) ?combo"
    and mx: "int (length ?combo) \<le> max_new_per_year p ! (y - 1)"
    by (auto simp: valid_combo_def)
  from feas sc' sl' mx lc jp
  have "sum_list (map capex_estimate_eur assigned)
           \<le> annual_capex_budget_eur p ! (y - 1) * max 0 (1 - budget_reserve_ratio p)"
    "np_mean (map city_prob_loss assigned) \<le> annual_loss_risk_cap p ! (y - 1)"
    "int (length assigned) \<le> max_new_cities_per_year p ! (y - 1)"
    by (simp_all add: feasible_combo_def planning_years_nth)
  moreover from yl len have "y \<le> planning_years p" by simp
  ultimately show ?thesis using dist plan_city_mset by blast
qed
theorem assigned_year_respects_limits_witness:
  "filter (\<lambda>r. rollout_year r = int 1) (build_rollout_plan params_two_states cities_two_states) \<noteq> []
   \<and> 1 \<le> planning_years params_two_states
   \<and> sum_list (map capex_estimate_eur
        (filter (\<lambda>r. rollout_year r = int 1) (build_rollout_plan params_two_states cities_two_states)))
       \<le> annual_capex_budget_eur params_two_states ! (1 - 1)
            * max 0 (1 - budget_reserve_ratio params_two_states)
   \<and> np_mean (map city_prob_loss
        (filter (\<lambda>r. rollout_year r = int 1) (build_rollout_plan params_two_states cities_two_states)))
       \<le> annual_loss_risk_cap params_two_states ! (1 - 1)
   \<and> int (length
        (filter (\<lambda>r. rollout_year r = int 1) (build_rollout_plan params_two_states cities_two_states)))
       \<le> max_new_cities_per_year params_two_states ! (1 - 1)"
proof -
  have "length (filter (\<lambda>r. rollout_year r = int 1)
          (build_rollout_plan params_two_states cities_two_states)) = 1" by code_simp
  then have ne: "filter (\<lambda>r. rollout_year r = int 1)
          (build_rollout_plan params_two_states cities_two_states) \<noteq> []" by auto
  have y: "(1::nat) \<le> 1" by simp
  from assigned_year_respects_limits[OF y refl ne] ne show ?thesis by blast
qed

text \<open>
  The claim as written takes the usable budget to be the gross budget times
  (1 - reserve ratio).  With a reserve ratio of 2 the usable budget is 0, not -100, and a
  city with capex estimate 0 is launched in year 1.
\<close>

theorem usable_budget_floor_counterexample:
  "length (filter (\<lambda>r. rollout_year r = 1)
             (build_rollout_plan params_over_reserve cities_zero_capex)) = 1
   \<and> \<not> sum_list (map capex_estimate_eur
            (filter (\<lambda>r. rollout_year r = 1)
               (build_rollout_plan params_over_reserve cities_zero_capex)))
         \<le> annual_capex_budget_eur params_over_reserve ! 0
              * (1 - budget_reserve_ratio params_over_reserve)"
  by code_simp

subsection \<open>Counting bits and counting states\<close>


















section \<open>Properties of the scenario summary\<close>










end
